theory Spec2Isabelle
  imports Complex_Main "HOL-Library.AList"
begin

section \<open>Output channels\<close>

text \<open>
  The embedding follows the file that declares \<^verbatim>\<open>OutputChannelManager\<close> and
  \<^verbatim>\<open>OutputChannel\<close>. The preference proxy \<^verbatim>\<open>OutputPreferences\<close> is declared elsewhere; the
  only thing the channel reads from it is the number stored under
  \<^verbatim>\<open>'output.maxChannelHistory'\<close>, and nothing in the channel restricts that number.

  A JavaScript number is a finite value, \<^verbatim>\<open>NaN\<close> or one of the two infinities. The finite
  values are rationals here and their arithmetic is exact: the rounding of IEEE doubles is
  not part of the model. For an integer value the subtraction that \<open>appendLine\<close> makes is
  exact in the source as well, or its result is far beyond the length of the array, where
  \<^verbatim>\<open>splice\<close> clamps it; the statements below that range over all values of the preference
  are made for the integer values.
\<close>

datatype number = Finite rat | NaN | Infinity | NegInfinity

record OutputPreferences =
  maxChannelHistory :: number

text \<open>\<^verbatim>\<open>n > m\<close> and \<^verbatim>\<open>n - m\<close> for the length \<open>n\<close> of an array and a number \<open>m\<close>.\<close>

fun length_gt :: "nat \<Rightarrow> number \<Rightarrow> bool" where
  "length_gt n (Finite q) = (of_nat n > q)"
| "length_gt n NaN = False"
| "length_gt n Infinity = False"
| "length_gt n NegInfinity = True"

fun length_minus :: "nat \<Rightarrow> number \<Rightarrow> number" where
  "length_minus n (Finite q) = Finite (of_nat n - q)"
| "length_minus n NaN = NaN"
| "length_minus n Infinity = NegInfinity"
| "length_minus n NegInfinity = Infinity"

text \<open>
  The fields of \<^verbatim>\<open>OutputChannel\<close>. \<open>currentLine\<close> is \<^verbatim>\<open>string | undefined\<close>; the empty
  string is a defined value. \<open>disposed\<close> stands for the state of the channel's three emitters
  (\<^verbatim>\<open>toDispose\<close>): it is set by \<^verbatim>\<open>dispose()\<close>, and an emitter that was disposed has no listener.
\<close>

record OutputChannel =
  name :: string
  lines :: "string list"
  currentLine :: "string option"
  visible :: bool
  locked :: bool
  disposed :: bool

text \<open>The constructor: the field initialisers of the class.\<close>

definition OutputChannel_new :: "string \<Rightarrow> OutputChannel" where
  "OutputChannel_new n =
     \<lparr>name = n, lines = [], currentLine = None, visible = True, locked = False,
      disposed = False\<rparr>"

text \<open>
  \<^verbatim>\<open>Array.prototype.splice(0, k)\<close> on an array of length \<open>len\<close>: the delete count \<open>k\<close> is made an
  integer by truncation towards zero (\<^verbatim>\<open>NaN\<close> becomes zero, the infinities stay), then clamped
  to the range from zero to \<open>len\<close>, and that many elements are removed from the front.
\<close>

fun actualDeleteCount :: "number \<Rightarrow> nat \<Rightarrow> nat" where
  "actualDeleteCount (Finite q) len = min len (nat (if 0 \<le> q then \<lfloor>q\<rfloor> else \<lceil>q\<rceil>))"
| "actualDeleteCount NaN len = 0"
| "actualDeleteCount Infinity len = len"
| "actualDeleteCount NegInfinity len = 0"

definition splice0 :: "number \<Rightarrow> 'a list \<Rightarrow> 'a list" where
  "splice0 deleteCount xs = drop (actualDeleteCount deleteCount (length xs)) xs"

definition OutputChannel_append :: "string \<Rightarrow> OutputChannel \<Rightarrow> OutputChannel" where
  "OutputChannel_append v c =
     (case currentLine c of
        None \<Rightarrow> c\<lparr>currentLine := Some v\<rparr>
      | Some cur \<Rightarrow> c\<lparr>currentLine := Some (cur @ v)\<rparr>)"

definition OutputChannel_appendLine ::
    "OutputPreferences \<Rightarrow> string \<Rightarrow> OutputChannel \<Rightarrow> OutputChannel" where
  "OutputChannel_appendLine prefs line c =
     (let c1 = (case currentLine c of
                  Some cur \<Rightarrow> c\<lparr>lines := lines c @ [cur @ line], currentLine := None\<rparr>
                | None \<Rightarrow> c\<lparr>lines := lines c @ [line]\<rparr>);
          m = maxChannelHistory prefs
      in if length_gt (length (lines c1)) m
         then c1\<lparr>lines := splice0 (length_minus (length (lines c1)) m) (lines c1)\<rparr>
         else c1)"

definition OutputChannel_clear :: "OutputChannel \<Rightarrow> OutputChannel" where
  "OutputChannel_clear c = c\<lparr>lines := [], currentLine := None\<rparr>"

definition OutputChannel_getLines :: "OutputChannel \<Rightarrow> string list" where
  "OutputChannel_getLines c =
     (case currentLine c of
        Some cur \<Rightarrow> lines c @ [cur]
      | None \<Rightarrow> lines c)"


subsection \<open>Sequences of calls on one channel\<close>

datatype call = Append string | AppendLine string

text \<open>The calls of a sequence, applied in order while the preference keeps one value.\<close>

fun call_channel :: "OutputPreferences \<Rightarrow> call \<Rightarrow> OutputChannel \<Rightarrow> OutputChannel" where
  "call_channel prefs (Append v) c = OutputChannel_append v c"
| "call_channel prefs (AppendLine l) c = OutputChannel_appendLine prefs l c"

fun run_calls :: "OutputPreferences \<Rightarrow> call list \<Rightarrow> OutputChannel \<Rightarrow> OutputChannel" where
  "run_calls prefs [] c = c"
| "run_calls prefs (x # xs) c = run_calls prefs xs (call_channel prefs x c)"

text \<open>
  The reading of the specification, with no history bound: a pair of the lines completed
  so far and the accumulator. \<open>appendLine\<close> completes the accumulator joined with its
  argument (the argument alone when there is no accumulator) and resets it; \<open>append\<close>
  extends the accumulator.
\<close>

fun spec_call :: "call \<Rightarrow> string list \<times> string option \<Rightarrow> string list \<times> string option" where
  "spec_call (Append v) (done, acc) =
     (done, Some (case acc of None \<Rightarrow> v | Some a \<Rightarrow> a @ v))"
| "spec_call (AppendLine l) (done, acc) =
     (done @ [case acc of None \<Rightarrow> l | Some a \<Rightarrow> a @ l], None)"

fun spec_calls :: "call list \<Rightarrow> string list \<times> string option \<Rightarrow> string list \<times> string option" where
  "spec_calls [] st = st"
| "spec_calls (x # xs) st = spec_calls xs (spec_call x st)"

definition spec_completed :: "call list \<Rightarrow> string list" where
  "spec_completed cs = fst (spec_calls cs ([], None))"

definition spec_trailing :: "call list \<Rightarrow> string list" where
  "spec_trailing cs = (case snd (spec_calls cs ([], None)) of None \<Rightarrow> [] | Some a \<Rightarrow> [a])"

definition spec_getLines :: "call list \<Rightarrow> string list" where
  "spec_getLines cs = spec_completed cs @ spec_trailing cs"

text \<open>The last \<open>k\<close> elements of a list (all of it when it is shorter).\<close>

definition takeLast :: "nat \<Rightarrow> 'a list \<Rightarrow> 'a list" where
  "takeLast k xs = drop (length xs - k) xs"

subsection \<open>Arrays as objects\<close>

text \<open>
  \<open>lines\<close> is a JavaScript array, an object with an identity, and \<open>getLines\<close> returns
  an array reference. Where the identity of the returned array matters, the arrays live
  in a store, a list of array contents indexed by address, and the channel holds the
  address of its \<open>lines\<close> array.
\<close>

type_synonym addr = nat
type_synonym array_store = "string list list"

record OutputChannel_mem =
  lines_at :: addr
  currentLine_mem :: "string option"

definition Array_new :: "string list \<Rightarrow> array_store \<Rightarrow> addr \<times> array_store" where
  "Array_new xs st = (length st, st @ [xs])"

definition Array_push :: "addr \<Rightarrow> string \<Rightarrow> array_store \<Rightarrow> array_store" where
  "Array_push a v st = st[a := st ! a @ [v]]"

definition Array_splice0 :: "addr \<Rightarrow> number \<Rightarrow> array_store \<Rightarrow> array_store" where
  "Array_splice0 a k st = st[a := splice0 k (st ! a)]"

definition mem_new :: "array_store \<Rightarrow> OutputChannel_mem \<times> array_store" where
  "mem_new st =
     (let (a, st1) = Array_new [] st
      in (\<lparr>lines_at = a, currentLine_mem = None\<rparr>, st1))"

definition mem_append ::
    "string \<Rightarrow> OutputChannel_mem \<times> array_store \<Rightarrow> OutputChannel_mem \<times> array_store" where
  "mem_append v = (\<lambda>(m, st).
     (case currentLine_mem m of
        None \<Rightarrow> (m\<lparr>currentLine_mem := Some v\<rparr>, st)
      | Some cur \<Rightarrow> (m\<lparr>currentLine_mem := Some (cur @ v)\<rparr>, st)))"

definition mem_appendLine ::
    "OutputPreferences \<Rightarrow> string \<Rightarrow> OutputChannel_mem \<times> array_store
      \<Rightarrow> OutputChannel_mem \<times> array_store" where
  "mem_appendLine prefs line = (\<lambda>(m, st).
     (let (m1, st1) = (case currentLine_mem m of
                         Some cur \<Rightarrow> (m\<lparr>currentLine_mem := None\<rparr>, Array_push (lines_at m) (cur @ line) st)
                       | None \<Rightarrow> (m, Array_push (lines_at m) line st));
          k = maxChannelHistory prefs
      in if length_gt (length (st1 ! lines_at m1)) k
         then (m1, Array_splice0 (lines_at m1) (length_minus (length (st1 ! lines_at m1)) k) st1)
         else (m1, st1)))"

text \<open>
  \<open>getLines\<close> on the store: with an accumulator it builds a new array (the spread
  \<^verbatim>\<open>[...this.lines, this.currentLine]\<close>), without one it returns \<^verbatim>\<open>this.lines\<close>, the
  channel's own array. The result is the returned address and the store after the call.
\<close>

definition mem_getLines :: "OutputChannel_mem \<Rightarrow> array_store \<Rightarrow> addr \<times> array_store" where
  "mem_getLines m st =
     (case currentLine_mem m of
        Some cur \<Rightarrow> Array_new (st ! lines_at m @ [cur]) st
      | None \<Rightarrow> (lines_at m, st))"

text \<open>The channel value that a channel in the store stands for.\<close>

definition mem_channel :: "OutputChannel \<Rightarrow> OutputChannel_mem \<Rightarrow> array_store \<Rightarrow> OutputChannel" where
  "mem_channel c m st = c\<lparr>lines := st ! lines_at m, currentLine := currentLine_mem m\<rparr>"


section \<open>The channel manager\<close>

text \<open>
  Channels are objects: the manager's registry and its selection hold references, and a
  client keeps the reference that \<open>getChannel\<close> returned, also after the channel was
  deleted. A reference is the index of the object in \<open>heap\<close>, the list of all channel
  objects constructed so far.

  \<open>channels\<close> is a JavaScript \<^verbatim>\<open>Map\<close>, which iterates in insertion order: an association
  list, with \<^const>\<open>map_of\<close> for \<^verbatim>\<open>get\<close>, \<^const>\<open>AList.update\<close> for \<^verbatim>\<open>set\<close> (a new key goes
  to the end) and \<^const>\<open>AList.delete\<close> for \<^verbatim>\<open>delete\<close>.

  \<open>fired\<close> records, in order, the events fired on the manager's five emitters, and
  \<open>console\<close> the warnings written with \<^verbatim>\<open>console.warn\<close>. \<open>storage\<close> is the value that the
  storage service holds under the manager's key: \<open>None\<close> when there is none or it is not
  an array.
\<close>

type_synonym ref = nat

datatype event =
    ChannelAdded ref
  | ChannelDelete string
  | SelectedChannelChange
  | ListOrSelectionChange
  | LockChange ref

datatype warning = CouldNotDelete string | ChannelDoesNotExist

record OutputChannelManager =
  channels :: "(string \<times> ref) list"
  selectedChannelValue :: "ref option"
  toDisposeOnChannelDeletion :: "(string \<times> ref list) list"
  lockedChannels :: "string set"
  preferences :: OutputPreferences
  storage :: "string list option"
  heap :: "OutputChannel list"
  fired :: "event list"
  console :: "warning list"

text \<open>
  The manager after its constructor and \<open>init()\<close>: no channel, no selection, and the two
  listeners of \<open>init()\<close> in place (they are the functions \<open>onChannelAdded_listener\<close> and
  \<open>onChannelDelete_listener\<close> below).
\<close>

definition OutputChannelManager_new ::
    "OutputPreferences \<Rightarrow> string list option \<Rightarrow> OutputChannelManager" where
  "OutputChannelManager_new prefs stored =
     \<lparr>channels = [], selectedChannelValue = None, toDisposeOnChannelDeletion = [],
      lockedChannels = {}, preferences = prefs, storage = stored, heap = [],
      fired = [], console = []\<rparr>"

definition fire :: "event \<Rightarrow> OutputChannelManager \<Rightarrow> OutputChannelManager" where
  "fire e s = s\<lparr>fired := fired s @ [e]\<rparr>"

definition warn :: "warning \<Rightarrow> OutputChannelManager \<Rightarrow> OutputChannelManager" where
  "warn w s = s\<lparr>console := console s @ [w]\<rparr>"

text \<open>The setter of \<open>selectedChannel\<close>.\<close>

definition set_selectedChannel ::
    "ref option \<Rightarrow> OutputChannelManager \<Rightarrow> OutputChannelManager" where
  "set_selectedChannel channel s =
     fire ListOrSelectionChange (fire SelectedChannelChange (s\<lparr>selectedChannelValue := channel\<rparr>))"

definition getChannels :: "OutputChannelManager \<Rightarrow> ref list" where
  "getChannels s = map snd (channels s)"

definition getVisibleChannels :: "OutputChannelManager \<Rightarrow> ref list" where
  "getVisibleChannels s = filter (\<lambda>channel. visible (heap s ! channel)) (getChannels s)"

text \<open>\<^verbatim>\<open>xs[0]\<close>: the first element, \<^verbatim>\<open>undefined\<close> for the empty array.\<close>

definition first :: "'a list \<Rightarrow> 'a option" where
  "first xs = (case xs of [] \<Rightarrow> None | x # _ \<Rightarrow> Some x)"

subsection \<open>Calls on a channel object\<close>

text \<open>
  Modelled from the spec: the \<^verbatim>\<open>Emitter\<close> and \<^verbatim>\<open>DisposableCollection\<close> classes of the core
  package are not among the sources. An emitter calls its listeners synchronously when it
  fires; disposing it clears the listeners, after which firing does nothing; disposing a
  collection disposes what was pushed to it and leaves it empty.

  The manager listens to a channel's visibility and lock events from \<open>registerListener\<close>
  on, which runs for every channel as soon as it is constructed, until the channel is
  disposed: by \<open>deleteChannel\<close>, through the collection of its name, or by a call of its own
  \<open>dispose()\<close>. So a call that fires one of these events runs the manager's listener unless
  the channel is disposed. Nothing of the manager listens to content changes.
\<close>

definition update_channel ::
    "ref \<Rightarrow> (OutputChannel \<Rightarrow> OutputChannel) \<Rightarrow> OutputChannelManager \<Rightarrow> OutputChannelManager" where
  "update_channel r f s = s\<lparr>heap := (heap s)[r := f (heap s ! r)]\<rparr>"

definition OutputChannel_toggleLocked :: "OutputChannel \<Rightarrow> OutputChannel" where
  "OutputChannel_toggleLocked c = c\<lparr>locked := \<not> locked c\<rparr>"

definition OutputChannel_setVisibility :: "bool \<Rightarrow> OutputChannel \<Rightarrow> OutputChannel" where
  "OutputChannel_setVisibility v c = c\<lparr>visible := v\<rparr>"

definition OutputChannel_dispose :: "OutputChannel \<Rightarrow> OutputChannel" where
  "OutputChannel_dispose c = c\<lparr>disposed := True\<rparr>"

definition channel_append :: "ref \<Rightarrow> string \<Rightarrow> OutputChannelManager \<Rightarrow> OutputChannelManager" where
  "channel_append r v s = update_channel r (OutputChannel_append v) s"

definition channel_appendLine ::
    "ref \<Rightarrow> string \<Rightarrow> OutputChannelManager \<Rightarrow> OutputChannelManager" where
  "channel_appendLine r l s = update_channel r (OutputChannel_appendLine (preferences s) l) s"

definition channel_clear :: "ref \<Rightarrow> OutputChannelManager \<Rightarrow> OutputChannelManager" where
  "channel_clear r s = update_channel r OutputChannel_clear s"

definition channel_dispose :: "ref \<Rightarrow> OutputChannelManager \<Rightarrow> OutputChannelManager" where
  "channel_dispose r s = update_channel r OutputChannel_dispose s"

text \<open>\<open>toggleLocked\<close>, and the listener \<^verbatim>\<open>() => this.channelLockedEmitter.fire(outputChannel)\<close>.\<close>

definition channel_toggleLocked :: "ref \<Rightarrow> OutputChannelManager \<Rightarrow> OutputChannelManager" where
  "channel_toggleLocked r s =
     (let s1 = update_channel r OutputChannel_toggleLocked s
      in if disposed (heap s1 ! r) then s1 else fire (LockChange r) s1)"

text \<open>\<open>setVisibility\<close>, and the visibility listener of \<open>registerListener\<close>.\<close>

definition channel_setVisibility ::
    "ref \<Rightarrow> bool \<Rightarrow> OutputChannelManager \<Rightarrow> OutputChannelManager" where
  "channel_setVisibility r v s =
     (let s1 = update_channel r (OutputChannel_setVisibility v) s
      in if disposed (heap s1 ! r) then s1
         else if v then set_selectedChannel (Some r) s1
         else if selectedChannelValue s1 = Some r
           then set_selectedChannel (first (getVisibleChannels s1)) s1
         else s1)"

text \<open>Disposing a collection: every channel pushed to it is disposed.\<close>

definition dispose_all :: "ref list \<Rightarrow> OutputChannel list \<Rightarrow> OutputChannel list" where
  "dispose_all coll h = fold (\<lambda>r h'. h'[r := OutputChannel_dispose (h' ! r)]) coll h"

subsection \<open>The manager's operations\<close>

definition registerListener :: "ref \<Rightarrow> OutputChannelManager \<Rightarrow> OutputChannelManager" where
  "registerListener outputChannel s =
     (let n = name (heap s ! outputChannel);
          s1 = (if selectedChannelValue s = None
                then set_selectedChannel (Some outputChannel) s else s);
          toDisposePerChannel =
            (case map_of (toDisposeOnChannelDeletion s1) n of None \<Rightarrow> [] | Some coll \<Rightarrow> coll);
          s2 = s1\<lparr>toDisposeOnChannelDeletion :=
                   AList.update n (toDisposePerChannel @ [outputChannel])
                     (toDisposeOnChannelDeletion s1)\<rparr>
      in if n \<in> lockedChannels s2
         then (if \<not> locked (heap s2 ! outputChannel)
               then channel_toggleLocked outputChannel s2 else s2)
         else s2)"

text \<open>The listener that \<open>init()\<close> puts on \<open>onChannelAdded\<close>.\<close>

definition onChannelAdded_listener :: "ref \<Rightarrow> OutputChannelManager \<Rightarrow> OutputChannelManager" where
  "onChannelAdded_listener channel s = registerListener channel (fire ListOrSelectionChange s)"

text \<open>The listener that \<open>init()\<close> puts on \<open>onChannelDelete\<close>.\<close>

definition onChannelDelete_listener ::
    "string \<Rightarrow> OutputChannelManager \<Rightarrow> OutputChannelManager" where
  "onChannelDelete_listener channelName s =
     (let s1 = fire ListOrSelectionChange s
      in case selectedChannelValue s1 of
           None \<Rightarrow> s1
         | Some sel \<Rightarrow>
             if name (heap s1 ! sel) = channelName
             then set_selectedChannel (first (getVisibleChannels s1)) s1
             else s1)"

definition getChannel :: "string \<Rightarrow> OutputChannelManager \<Rightarrow> ref \<times> OutputChannelManager" where
  "getChannel n s =
     (case map_of (channels s) n of
        Some existing \<Rightarrow> (existing, s)
      | None \<Rightarrow>
          (let channel = length (heap s);
               s1 = s\<lparr>heap := heap s @ [OutputChannel_new n]\<rparr>;
               s2 = s1\<lparr>channels := AList.update n channel (channels s1)\<rparr>;
               s3 = fire (ChannelAdded channel) s2
           in (channel, onChannelAdded_listener channel s3)))"

definition deleteChannel :: "string \<Rightarrow> OutputChannelManager \<Rightarrow> OutputChannelManager" where
  "deleteChannel n s =
     (case map_of (channels s) n of
        None \<Rightarrow> warn (CouldNotDelete n) s
      | Some existing \<Rightarrow>
          (let s1 = s\<lparr>channels := AList.delete n (channels s)\<rparr>;
               s2 = (case map_of (toDisposeOnChannelDeletion s1) n of
                       None \<Rightarrow> s1
                     | Some toDisposePerChannel \<Rightarrow>
                         s1\<lparr>heap := dispose_all toDisposePerChannel (heap s1),
                            toDisposeOnChannelDeletion :=
                              AList.update n [] (toDisposeOnChannelDeletion s1)\<rparr>);
               s3 = fire (ChannelDelete n) s2
           in onChannelDelete_listener n s3))"

text \<open>
  \<open>toggleScrollLock\<close>: the parameter defaults to the selection when the argument is
  absent or \<^verbatim>\<open>undefined\<close>.
\<close>

definition toggleScrollLock ::
    "ref option \<Rightarrow> OutputChannelManager \<Rightarrow> OutputChannelManager" where
  "toggleScrollLock arg s =
     (let channel = (case arg of None \<Rightarrow> selectedChannelValue s | Some c \<Rightarrow> Some c)
      in case channel of
           None \<Rightarrow> warn ChannelDoesNotExist s
         | Some c \<Rightarrow> channel_toggleLocked c s)"

text \<open>
  \<open>onStart\<close>, from the point where the stored value has arrived, and \<open>onStop\<close>. The
  storage service answers at once here: what happens between the request and the answer
  is not part of the model.
\<close>

definition onStart :: "OutputChannelManager \<Rightarrow> OutputChannelManager" where
  "onStart s =
     (case storage s of
        Some stored \<Rightarrow> s\<lparr>lockedChannels := lockedChannels s \<union> set stored\<rparr>
      | None \<Rightarrow> s)"

definition locked_names :: "OutputChannelManager \<Rightarrow> string list" where
  "locked_names s = map name (filter locked (map (\<lambda>r. heap s ! r) (getChannels s)))"

definition onStop :: "OutputChannelManager \<Rightarrow> OutputChannelManager" where
  "onStop s = s\<lparr>storage := Some (locked_names s)\<rparr>"

subsection \<open>Runs of the manager\<close>

text \<open>
  The public operations of the manager and of its channels, as a client can call them.
  A client holds only references that \<open>getChannel\<close> returned, so an operation that names
  a reference outside the heap is no call of the program; \<open>step\<close> skips it.
\<close>

datatype operation =
    GetChannel string
  | DeleteChannel string
  | SetSelectedChannel "ref option"
  | ToggleScrollLock "ref option"
  | OnStart
  | OnStop
  | ChannelAppend ref string
  | ChannelAppendLine ref string
  | ChannelClear ref
  | ChannelSetVisibility ref bool
  | ChannelToggleLocked ref
  | ChannelDispose ref

fun refs_of :: "operation \<Rightarrow> ref list" where
  "refs_of (SetSelectedChannel (Some r)) = [r]"
| "refs_of (ToggleScrollLock (Some r)) = [r]"
| "refs_of (ChannelAppend r v) = [r]"
| "refs_of (ChannelAppendLine r l) = [r]"
| "refs_of (ChannelClear r) = [r]"
| "refs_of (ChannelSetVisibility r v) = [r]"
| "refs_of (ChannelToggleLocked r) = [r]"
| "refs_of (ChannelDispose r) = [r]"
| "refs_of _ = []"

fun exec :: "operation \<Rightarrow> OutputChannelManager \<Rightarrow> OutputChannelManager" where
  "exec (GetChannel n) s = snd (getChannel n s)"
| "exec (DeleteChannel n) s = deleteChannel n s"
| "exec (SetSelectedChannel c) s = set_selectedChannel c s"
| "exec (ToggleScrollLock c) s = toggleScrollLock c s"
| "exec OnStart s = onStart s"
| "exec OnStop s = onStop s"
| "exec (ChannelAppend r v) s = channel_append r v s"
| "exec (ChannelAppendLine r l) s = channel_appendLine r l s"
| "exec (ChannelClear r) s = channel_clear r s"
| "exec (ChannelSetVisibility r v) s = channel_setVisibility r v s"
| "exec (ChannelToggleLocked r) s = channel_toggleLocked r s"
| "exec (ChannelDispose r) s = channel_dispose r s"

definition step :: "operation \<Rightarrow> OutputChannelManager \<Rightarrow> OutputChannelManager" where
  "step x s = (if list_all (\<lambda>r. r < length (heap s)) (refs_of x) then exec x s else s)"

fun run :: "operation list \<Rightarrow> OutputChannelManager \<Rightarrow> OutputChannelManager" where
  "run [] s = s"
| "run (x # xs) s = run xs (step x s)"


subsection \<open>Invariants of the registry\<close>

text \<open>The channel objects that the registry holds.\<close>

definition registered :: "OutputChannelManager \<Rightarrow> ref set" where
  "registered s = snd ` set (channels s)"

text \<open>
  The collection that \<open>toDisposeOnChannelDeletion\<close> holds for a name: the channels pushed to
  it, none when the name has no entry.
\<close>

definition collection :: "OutputChannelManager \<Rightarrow> string \<Rightarrow> ref list" where
  "collection s n = (case map_of (toDisposeOnChannelDeletion s) n of None \<Rightarrow> [] | Some coll \<Rightarrow> coll)"

text \<open>
  What the operations maintain about the registry: no name occurs twice; a registered
  channel is an object of the heap, carries the name it is registered under and is in the
  collection of its name; the collection of a name holds channels of that name only; and
  every channel that is not disposed is registered. (A registered channel may be disposed:
  a client can call its \<open>dispose()\<close>.)
\<close>

definition manager_inv :: "OutputChannelManager \<Rightarrow> bool" where
  "manager_inv s \<longleftrightarrow>
     distinct (map fst (channels s))
   \<and> (\<forall>(n, r) \<in> set (channels s).
        r < length (heap s) \<and> name (heap s ! r) = n \<and> r \<in> set (collection s n))
   \<and> (\<forall>(n, coll) \<in> set (toDisposeOnChannelDeletion s).
        \<forall>r \<in> set coll. r < length (heap s) \<and> name (heap s ! r) = n)
   \<and> (\<forall>r < length (heap s). \<not> disposed (heap s ! r) \<longrightarrow> r \<in> registered s)"

text \<open>The selection is absent or a registered channel.\<close>

definition selection_ok :: "OutputChannelManager \<Rightarrow> bool" where
  "selection_ok s \<longleftrightarrow> (\<forall>r. selectedChannelValue s = Some r \<longrightarrow> r \<in> registered s)"

text \<open>
  Two states with the same registry and the same collections, whose channel objects have the
  same names, and where the channels disposed in the first are disposed in the second.
\<close>

definition same_registry :: "OutputChannelManager \<Rightarrow> OutputChannelManager \<Rightarrow> bool" where
  "same_registry s s' \<longleftrightarrow>
     channels s' = channels s
   \<and> toDisposeOnChannelDeletion s' = toDisposeOnChannelDeletion s
   \<and> length (heap s') = length (heap s)
   \<and> (\<forall>r < length (heap s).
        name (heap s' ! r) = name (heap s ! r)
      \<and> (disposed (heap s ! r) \<longrightarrow> disposed (heap s' ! r)))"

text \<open>
  A call of the setter that passes a channel of the registry, or no channel. Every other
  operation qualifies.
\<close>

fun selects_registered :: "operation \<Rightarrow> OutputChannelManager \<Rightarrow> bool" where
  "selects_registered (SetSelectedChannel (Some r)) s = (r \<in> registered s)"
| "selects_registered _ s = True"

text \<open>A run in which every call of the setter passes a channel that is registered at that time.\<close>

fun admissible :: "operation list \<Rightarrow> OutputChannelManager \<Rightarrow> bool" where
  "admissible [] s = True"
| "admissible (x # xs) s = (selects_registered x s \<and> admissible xs (step x s))"

text \<open>The events fired on \<open>channelAddedEmitter\<close>, in order.\<close>

definition channelAdded_events :: "OutputChannelManager \<Rightarrow> event list" where
  "channelAdded_events s =
     filter (\<lambda>e. case e of ChannelAdded _ \<Rightarrow> True | _ \<Rightarrow> False) (fired s)"

text \<open>The state in which one more name is recorded as locked.\<close>

definition record_locked :: "string \<Rightarrow> OutputChannelManager \<Rightarrow> OutputChannelManager" where
  "record_locked N s = s\<lparr>lockedChannels := insert N (lockedChannels s)\<rparr>"


section \<open>Properties of a channel\<close>

subsection \<open>Lines of a channel after a sequence of calls\<close>

text \<open>The history bound of \<open>appendLine\<close>, applied to the lines after the push.\<close>

lemma appendLine_lines:
  "lines (OutputChannel_appendLine prefs l c) =
     (let ys = lines c @ [case currentLine c of None \<Rightarrow> l | Some cur \<Rightarrow> cur @ l];
          m = maxChannelHistory prefs
      in if length_gt (length ys) m then splice0 (length_minus (length ys) m) ys else ys)"
  by (simp add: OutputChannel_appendLine_def Let_def split: option.splits)

lemma appendLine_currentLine [simp]:
  "currentLine (OutputChannel_appendLine prefs l c) = None"
  by (simp add: OutputChannel_appendLine_def Let_def split: option.splits)

lemma append_fields [simp]:
  "lines (OutputChannel_append v c) = lines c"
  "currentLine (OutputChannel_append v c) = Some (case currentLine c of None \<Rightarrow> v | Some cur \<Rightarrow> cur @ v)"
  by (simp_all add: OutputChannel_append_def split: option.splits)

text \<open>For an integer value of the preference the comparison and the delete count are those of the integers.\<close>

lemma length_gt_int: "length_gt n (Finite (of_int m)) = (m < int n)"
proof -
  have "(of_int m < (of_nat n :: rat)) = (of_int m < (of_int (int n) :: rat))" by simp
  also have "\<dots> = (m < int n)" by (rule of_int_less_iff)
  finally show ?thesis by simp
qed

lemma deleteCount_int:
  assumes "m < int n"
  shows "actualDeleteCount (length_minus n (Finite (of_int m))) n = min n (nat (int n - m))"
proof -
  have eq: "(of_nat n :: rat) - of_int m = of_int (int n - m)" by simp
  have "0 \<le> int n - m" using assms by simp
  then have "(0 :: rat) \<le> of_int (int n - m)" by (simp only: of_int_0_le_iff)
  then show ?thesis
    unfolding length_minus.simps actualDeleteCount.simps eq by (simp only: if_True floor_of_int)
qed

lemma splice_whole:
  "(let ys = xs @ [x]
    in if length_gt (length ys) (Finite (of_int m))
       then splice0 (length_minus (length ys) (Finite (of_int m))) ys else ys)
   = takeLast (nat m) (xs @ [x])"
proof (cases "m < int (length (xs @ [x]))")
  case gt: True
  have "splice0 (length_minus (length (xs @ [x])) (Finite (of_int m))) (xs @ [x])
        = drop (min (length (xs @ [x])) (nat (int (length (xs @ [x])) - m))) (xs @ [x])"
    unfolding splice0_def deleteCount_int [OF gt] ..
  also have "\<dots> = drop (length (xs @ [x]) - nat m) (xs @ [x])"
  proof (cases "0 \<le> m")
    case True
    then have "nat (int (length (xs @ [x])) - m) = length (xs @ [x]) - nat m" by linarith
    then show ?thesis by (simp add: min_def)
  next
    case False
    then have "length (xs @ [x]) \<le> nat (int (length (xs @ [x])) - m)" "nat m = 0" by linarith+
    then show ?thesis by (simp add: min_def)
  qed
  finally show ?thesis using gt by (simp only: Let_def length_gt_int takeLast_def if_True)
next
  case False
  then have "length (xs @ [x]) - nat m = 0" by linarith
  then show ?thesis using False by (simp only: Let_def length_gt_int takeLast_def if_False drop_0)
qed

lemma appendLine_takeLast:
  assumes "maxChannelHistory prefs = Finite (of_int m)"
  shows "lines (OutputChannel_appendLine prefs l c) =
     takeLast (nat m) (lines c @ [case currentLine c of None \<Rightarrow> l | Some cur \<Rightarrow> cur @ l])"
  unfolding appendLine_lines assms
  using splice_whole [of "lines c" "case currentLine c of None \<Rightarrow> l | Some cur \<Rightarrow> cur @ l" m]
  by (simp only: Let_def)

lemma takeLast_length: "length (takeLast k xs) \<le> k"
  by (simp add: takeLast_def)

lemma takeLast_takeLast_snoc:
  "takeLast k (takeLast k xs @ [x]) = takeLast k (xs @ [x])"
proof -
  have "Suc (length xs) - (length xs - k + k) + (length xs - k) = Suc (length xs) - k"
    by arith
  then show ?thesis by (simp add: takeLast_def)
qed

lemma run_calls_sim:
  assumes m: "maxChannelHistory prefs = Finite (of_int m)"
  shows "lines c = takeLast (nat m) done \<Longrightarrow> currentLine c = acc \<Longrightarrow>
   lines (run_calls prefs cs c) = takeLast (nat m) (fst (spec_calls cs (done, acc)))
   \<and> currentLine (run_calls prefs cs c) = snd (spec_calls cs (done, acc))"
proof (induction cs arbitrary: c "done" acc)
  case Nil
  then show ?case by simp
next
  case (Cons x xs)
  show ?case
  proof (cases x)
    case (Append v)
    then show ?thesis using Cons.prems Cons.IH [of "OutputChannel_append v c" "done"] by simp
  next
    case (AppendLine l)
    have "lines (OutputChannel_appendLine prefs l c)
          = takeLast (nat m) (done @ [case acc of None \<Rightarrow> l | Some a \<Rightarrow> a @ l])"
      using Cons.prems by (simp add: appendLine_takeLast [OF m] takeLast_takeLast_snoc)
    then show ?thesis using AppendLine Cons.IH [of "OutputChannel_appendLine prefs l c"] by simp
  qed
qed

lemma getLines_run_calls:
  assumes m: "maxChannelHistory prefs = Finite (of_int m)"
  shows "OutputChannel_getLines (run_calls prefs cs (OutputChannel_new n)) =
     takeLast (nat m) (spec_completed cs) @ spec_trailing cs"
proof -
  have "lines (OutputChannel_new n) = takeLast (nat m) []"
    "currentLine (OutputChannel_new n) = None"
    by (simp_all add: OutputChannel_new_def takeLast_def)
  from run_calls_sim [OF m this] show ?thesis
    by (simp add: OutputChannel_getLines_def spec_completed_def spec_trailing_def split: option.splits)
qed

text \<open>
  C1. For every sequence of \<open>append\<close> and \<open>appendLine\<close> calls on a new channel, made while the
  preference holds one integer value \<open>m\<close>, \<open>getLines()\<close> is the last \<open>m\<close> of the completed lines
  in call order (none of them for a negative \<open>m\<close>), followed by the unterminated content if
  there is any. When no more than \<open>m\<close> lines were completed this is the list of all completed
  lines followed by the unterminated content, and \<open>append("Hel")\<close>, \<open>append("lo")\<close>,
  \<open>appendLine("!")\<close> give \<open>["Hello!"]\<close> whenever \<open>m\<close> is at least one.
\<close>

theorem C1_getLines_after_calls:
  assumes "maxChannelHistory prefs = Finite (of_int m)"
  shows "OutputChannel_getLines (run_calls prefs cs (OutputChannel_new n)) =
     takeLast (nat m) (spec_completed cs) @ spec_trailing cs
   \<and> (int (length (spec_completed cs)) \<le> m \<longrightarrow>
        OutputChannel_getLines (run_calls prefs cs (OutputChannel_new n)) = spec_getLines cs)
   \<and> (1 \<le> m \<longrightarrow>
        OutputChannel_getLines
          (run_calls prefs [Append ''Hel'', Append ''lo'', AppendLine ''!''] (OutputChannel_new n))
        = [''Hello!''])"
proof (intro conjI impI)
  show g: "OutputChannel_getLines (run_calls prefs cs (OutputChannel_new n)) =
     takeLast (nat m) (spec_completed cs) @ spec_trailing cs" for cs
    using assms by (rule getLines_run_calls)
  {
    assume "int (length (spec_completed cs)) \<le> m"
    then have "length (spec_completed cs) - nat m = 0" by linarith
    then show "OutputChannel_getLines (run_calls prefs cs (OutputChannel_new n)) = spec_getLines cs"
      by (simp add: g takeLast_def spec_getLines_def)
  }
  {
    assume "1 \<le> m"
    then have "Suc 0 - nat m = 0" by linarith
    then show "OutputChannel_getLines
          (run_calls prefs [Append ''Hel'', Append ''lo'', AppendLine ''!''] (OutputChannel_new n))
        = [''Hello!'']"
      unfolding g by (simp add: takeLast_def spec_completed_def spec_trailing_def)
  }
qed

text \<open>The theorem at a run that loses its oldest line, at one that loses none, and at the scenario.\<close>

theorem C1_getLines_after_calls_witness:
  "maxChannelHistory \<lparr>maxChannelHistory = Finite 3\<rparr> = Finite (of_int 3)
   \<and> OutputChannel_getLines
     (run_calls \<lparr>maxChannelHistory = Finite 3\<rparr>
        [AppendLine ''a'', Append ''b'', AppendLine ''c'', AppendLine ''d'', AppendLine ''e'', Append ''f'']
        (OutputChannel_new ''out''))
   = [''bc'', ''d'', ''e'', ''f'']
   \<and> int (length (spec_completed [Append ''x'', AppendLine ''y'', Append ''z''])) \<le> 3
   \<and> OutputChannel_getLines
       (run_calls \<lparr>maxChannelHistory = Finite 3\<rparr> [Append ''x'', AppendLine ''y'', Append ''z'']
          (OutputChannel_new ''out''))
     = [''xy'', ''z'']
   \<and> maxChannelHistory \<lparr>maxChannelHistory = Finite 1000\<rparr> = Finite (of_int 1000)
   \<and> (1::int) \<le> 1000
   \<and> OutputChannel_getLines
       (run_calls \<lparr>maxChannelHistory = Finite 1000\<rparr> [Append ''Hel'', Append ''lo'', AppendLine ''!'']
          (OutputChannel_new ''out''))
     = [''Hello!'']"
proof -
  have p3: "maxChannelHistory \<lparr>maxChannelHistory = Finite 3\<rparr> = Finite (of_int 3)"
    and p1000: "maxChannelHistory \<lparr>maxChannelHistory = Finite 1000\<rparr> = Finite (of_int 1000)"
    by simp_all
  from C1_getLines_after_calls [OF p3, of
      "[AppendLine ''a'', Append ''b'', AppendLine ''c'', AppendLine ''d'', AppendLine ''e'', Append ''f'']"
      "''out''"]
    C1_getLines_after_calls [OF p3, of "[Append ''x'', AppendLine ''y'', Append ''z'']" "''out''"]
    C1_getLines_after_calls [OF p1000, of "[]" "''out''"]
  show ?thesis
    by (simp add: takeLast_def spec_completed_def spec_trailing_def spec_getLines_def)
qed

text \<open>
  Without the bound the statement fails: with a history of three, four completed lines do
  not all come back.
\<close>

theorem C1_counterexample:
  "OutputChannel_getLines
     (run_calls \<lparr>maxChannelHistory = Finite 3\<rparr>
        [AppendLine ''a'', AppendLine ''b'', AppendLine ''c'', AppendLine ''d'']
        (OutputChannel_new ''out''))
   \<noteq> spec_getLines [AppendLine ''a'', AppendLine ''b'', AppendLine ''c'', AppendLine ''d'']"
  by (simp add: OutputChannel_getLines_def OutputChannel_appendLine_def OutputChannel_new_def
      splice0_def spec_getLines_def spec_completed_def spec_trailing_def)

subsection \<open>The history bound\<close>

text \<open>
  C2. After every \<open>appendLine\<close> call that reads a non-negative integer value \<open>m\<close> of the
  preference, the channel stores at most \<open>m\<close> completed lines, and they are the last \<open>m\<close> of
  the lines stored before the call followed by the line just completed: the oldest lines go
  first. The preference is an argument of each call, so each call reads it anew. With a
  history of three, \<open>appendLine\<close> of \<open>a\<close>, \<open>b\<close>, \<open>c\<close>, \<open>d\<close> leaves \<open>["b", "c", "d"]\<close>.
\<close>

theorem C2_history_bound:
  assumes "maxChannelHistory prefs = Finite (of_int m)" and "0 \<le> m"
  shows "int (length (lines (OutputChannel_appendLine prefs l c))) \<le> m
   \<and> \<not> length_gt (length (lines (OutputChannel_appendLine prefs l c))) (maxChannelHistory prefs)
   \<and> lines (OutputChannel_appendLine prefs l c) =
       takeLast (nat m) (lines c @ [case currentLine c of None \<Rightarrow> l | Some cur \<Rightarrow> cur @ l])
   \<and> OutputChannel_getLines
       (OutputChannel_appendLine \<lparr>maxChannelHistory = Finite 3\<rparr> ''d''
         (OutputChannel_appendLine \<lparr>maxChannelHistory = Finite 3\<rparr> ''c''
           (OutputChannel_appendLine \<lparr>maxChannelHistory = Finite 3\<rparr> ''b''
             (OutputChannel_appendLine \<lparr>maxChannelHistory = Finite 3\<rparr> ''a'' (OutputChannel_new n)))))
     = [''b'', ''c'', ''d'']"
proof (intro conjI)
  have "length (lines (OutputChannel_appendLine prefs l c)) \<le> nat m"
    by (simp add: appendLine_takeLast [OF assms(1)] takeLast_length)
  with assms(2) show le: "int (length (lines (OutputChannel_appendLine prefs l c))) \<le> m"
    by linarith
  then show "\<not> length_gt (length (lines (OutputChannel_appendLine prefs l c))) (maxChannelHistory prefs)"
    unfolding assms(1) length_gt_int by simp
  show "lines (OutputChannel_appendLine prefs l c) =
       takeLast (nat m) (lines c @ [case currentLine c of None \<Rightarrow> l | Some cur \<Rightarrow> cur @ l])"
    using assms(1) by (rule appendLine_takeLast)
  show "OutputChannel_getLines
       (OutputChannel_appendLine \<lparr>maxChannelHistory = Finite 3\<rparr> ''d''
         (OutputChannel_appendLine \<lparr>maxChannelHistory = Finite 3\<rparr> ''c''
           (OutputChannel_appendLine \<lparr>maxChannelHistory = Finite 3\<rparr> ''b''
             (OutputChannel_appendLine \<lparr>maxChannelHistory = Finite 3\<rparr> ''a'' (OutputChannel_new n)))))
     = [''b'', ''c'', ''d'']"
    by (simp add: OutputChannel_getLines_def OutputChannel_appendLine_def OutputChannel_new_def
        splice0_def)
qed

theorem C2_history_bound_witness:
  "maxChannelHistory \<lparr>maxChannelHistory = Finite 2\<rparr> = Finite (of_int 2)
   \<and> (0::int) \<le> 2
   \<and> lines (OutputChannel_appendLine \<lparr>maxChannelHistory = Finite 2\<rparr> ''z''
        ((OutputChannel_new ''out'')\<lparr>lines := [''u'', ''v'', ''w''], currentLine := Some ''y''\<rparr>))
     = [''w'', ''yz'']
   \<and> int (length (lines (OutputChannel_appendLine \<lparr>maxChannelHistory = Finite 2\<rparr> ''z''
        ((OutputChannel_new ''out'')\<lparr>lines := [''u'', ''v'', ''w''], currentLine := Some ''y''\<rparr>)))) \<le> 2"
proof -
  have p2: "maxChannelHistory \<lparr>maxChannelHistory = Finite 2\<rparr> = Finite (of_int 2)" by simp
  from C2_history_bound [OF p2, of "''z''"
      "(OutputChannel_new ''out'')\<lparr>lines := [''u'', ''v'', ''w''], currentLine := Some ''y''\<rparr>"
      "''out''"]
  show ?thesis by (simp add: takeLast_def OutputChannel_new_def)
qed

text \<open>
  For the value \<open>-1\<close> all lines are removed, and none is still more than the bound. For the
  value \<open>2.5\<close> the third line exceeds the bound, the delete count \<open>0.5\<close> is truncated to zero,
  and all three lines stay.
\<close>

theorem C2_counterexample:
  "lines (OutputChannel_appendLine \<lparr>maxChannelHistory = Finite (- 1)\<rparr> ''a''
            (OutputChannel_new ''out'')) = []
   \<and> length_gt (length (lines (OutputChannel_appendLine \<lparr>maxChannelHistory = Finite (- 1)\<rparr> ''a''
                (OutputChannel_new ''out''))))
        (maxChannelHistory \<lparr>maxChannelHistory = Finite (- 1)\<rparr>)
   \<and> lines (OutputChannel_appendLine \<lparr>maxChannelHistory = Finite (5 / 2)\<rparr> ''c''
            ((OutputChannel_new ''out'')\<lparr>lines := [''a'', ''b'']\<rparr>)) = [''a'', ''b'', ''c'']
   \<and> length_gt (length (lines (OutputChannel_appendLine \<lparr>maxChannelHistory = Finite (5 / 2)\<rparr> ''c''
                ((OutputChannel_new ''out'')\<lparr>lines := [''a'', ''b'']\<rparr>))))
        (maxChannelHistory \<lparr>maxChannelHistory = Finite (5 / 2)\<rparr>)"
  by (simp add: OutputChannel_appendLine_def OutputChannel_new_def splice0_def)

subsection \<open>What \<open>getLines\<close> returns\<close>

lemma getLines_value:
  "OutputChannel_getLines c = lines c @ (case currentLine c of None \<Rightarrow> [] | Some cur \<Rightarrow> [cur])"
  by (simp add: OutputChannel_getLines_def split: option.splits)

lemma mem_getLines_result:
  "lines_at m < length st \<Longrightarrow>
   snd (mem_getLines m st) ! fst (mem_getLines m st) = OutputChannel_getLines (mem_channel c m st)"
  by (simp add: mem_getLines_def mem_channel_def OutputChannel_getLines_def Array_new_def
      split: option.splits)

lemma mem_getLines_store:
  "take (length st) (snd (mem_getLines m st)) = st"
  by (simp add: mem_getLines_def Array_new_def split: option.splits)

lemma mem_getLines_fresh:
  "lines_at m < length st \<Longrightarrow> currentLine_mem m = Some cur \<Longrightarrow>
   fst (mem_getLines m st) = length st \<and>
   Array_push (fst (mem_getLines m st)) x (snd (mem_getLines m st)) ! lines_at m = st ! lines_at m"
  by (simp add: mem_getLines_def Array_new_def Array_push_def nth_append)

lemma mem_getLines_alias:
  "lines_at m < length st \<Longrightarrow> currentLine_mem m = None \<Longrightarrow>
   mem_getLines m st = (lines_at m, st) \<and>
   Array_push (fst (mem_getLines m st)) x (snd (mem_getLines m st)) ! lines_at m = st ! lines_at m @ [x]"
  by (simp add: mem_getLines_def Array_push_def)

text \<open>
  C3. For every channel state \<open>getLines()\<close> returns the completed lines, with the accumulator
  as the last element when there is one. The call changes no array that existed before it
  and no field of the channel. With an accumulator the returned array is a new one, and
  pushing to it leaves the channel's lines as they were; without an accumulator the
  returned array is the channel's own \<open>lines\<close> array, and pushing to it adds to the channel's
  lines.
\<close>

theorem C3_getLines_snapshot:
  "OutputChannel_getLines c = lines c @ (case currentLine c of None \<Rightarrow> [] | Some cur \<Rightarrow> [cur])
   \<and> (lines_at m < length st \<longrightarrow>
        snd (mem_getLines m st) ! fst (mem_getLines m st)
          = OutputChannel_getLines (mem_channel c m st)
      \<and> take (length st) (snd (mem_getLines m st)) = st
      \<and> (currentLine_mem m \<noteq> None \<longrightarrow>
           fst (mem_getLines m st) = length st
         \<and> Array_push (fst (mem_getLines m st)) x (snd (mem_getLines m st)) ! lines_at m
             = st ! lines_at m)
      \<and> (currentLine_mem m = None \<longrightarrow>
           mem_getLines m st = (lines_at m, st)
         \<and> Array_push (fst (mem_getLines m st)) x (snd (mem_getLines m st)) ! lines_at m
             = st ! lines_at m @ [x]))"
  using getLines_value [of c] mem_getLines_result [of m st c] mem_getLines_store [of st m]
    mem_getLines_fresh [of m st _ x] mem_getLines_alias [of m st x]
  by blast

theorem C3_getLines_snapshot_witness:
  "lines_at \<lparr>lines_at = 0, currentLine_mem = Some ''b''\<rparr> < length [[''a'']]
   \<and> currentLine_mem \<lparr>lines_at = 0, currentLine_mem = Some ''b''\<rparr> \<noteq> None
   \<and> mem_getLines \<lparr>lines_at = 0, currentLine_mem = Some ''b''\<rparr> [[''a'']]
       = (1, [[''a''], [''a'', ''b'']])
   \<and> Array_push 1 ''x'' [[''a''], [''a'', ''b'']] ! 0 = [''a'']
   \<and> lines_at \<lparr>lines_at = 0, currentLine_mem = None\<rparr> < length [[''a'']]
   \<and> currentLine_mem \<lparr>lines_at = 0, currentLine_mem = None\<rparr> = None
   \<and> Array_push (fst (mem_getLines \<lparr>lines_at = 0, currentLine_mem = None\<rparr> [[''a'']])) ''x''
         (snd (mem_getLines \<lparr>lines_at = 0, currentLine_mem = None\<rparr> [[''a'']])) ! 0
       = [''a'', ''x'']"
  using C3_getLines_snapshot [of "OutputChannel_new ''out''"
      "\<lparr>lines_at = 0, currentLine_mem = Some ''b''\<rparr>" "[[''a'']]" "''x''"]
    C3_getLines_snapshot [of "OutputChannel_new ''out''"
      "\<lparr>lines_at = 0, currentLine_mem = None\<rparr>" "[[''a'']]" "''x''"]
  by (simp add: mem_getLines_def Array_new_def Array_push_def)

text \<open>
  A channel with the one line \<open>a\<close> and no accumulator: \<open>getLines()\<close> returns the address of its
  \<open>lines\<close> array, and a push to the returned array changes the stored lines.
\<close>

theorem C3_counterexample:
  "mem_appendLine \<lparr>maxChannelHistory = Finite 1000\<rparr> ''a'' (mem_new [])
     = (\<lparr>lines_at = 0, currentLine_mem = None\<rparr>, [[''a'']])
   \<and> mem_getLines \<lparr>lines_at = 0, currentLine_mem = None\<rparr> [[''a'']] = (0, [[''a'']])
   \<and> Array_push 0 ''x'' [[''a'']] ! lines_at \<lparr>lines_at = 0, currentLine_mem = None\<rparr>
     = [''a'', ''x'']
   \<and> Array_push 0 ''x'' [[''a'']] ! lines_at \<lparr>lines_at = 0, currentLine_mem = None\<rparr>
     \<noteq> [[''a'']] ! lines_at \<lparr>lines_at = 0, currentLine_mem = None\<rparr>"
  by (simp add: mem_appendLine_def mem_new_def Array_new_def Array_push_def mem_getLines_def)

section \<open>Properties of the manager\<close>

subsection \<open>The registry invariant\<close>

lemma same_registry_refl [simp]: "same_registry s s"
  by (simp add: same_registry_def)

lemma same_registry_trans:
  "same_registry s s' \<Longrightarrow> same_registry s' s'' \<Longrightarrow> same_registry s s''"
  unfolding same_registry_def by auto

lemma same_registry_inv:
  "same_registry s s' \<Longrightarrow> manager_inv s \<Longrightarrow> manager_inv s'"
  unfolding same_registry_def manager_inv_def registered_def collection_def
  by (auto split: prod.splits) 

lemma same_registry_fire [simp]: "same_registry s (fire e s)"
  by (simp add: same_registry_def fire_def)

lemma same_registry_warn [simp]: "same_registry s (warn w s)"
  by (simp add: same_registry_def warn_def)

lemma same_registry_select [simp]: "same_registry s (set_selectedChannel c s)"
  by (simp add: same_registry_def set_selectedChannel_def fire_def)

lemma same_registry_update:
  assumes "\<And>c. name (f c) = name c" "\<And>c. disposed c \<Longrightarrow> disposed (f c)"
  shows "same_registry s (update_channel r f s)"
proof -
  have "name ((heap s)[r := f (heap s ! r)] ! i) = name (heap s ! i)
      \<and> (disposed (heap s ! i) \<longrightarrow> disposed ((heap s)[r := f (heap s ! r)] ! i))"
    if "i < length (heap s)" for i
    using that assms by (cases "i = r") simp_all
  then show ?thesis by (simp add: same_registry_def update_channel_def)
qed

lemma append_keeps [simp]:
  "name (OutputChannel_append v c) = name c" "disposed (OutputChannel_append v c) = disposed c"
  "visible (OutputChannel_append v c) = visible c" "locked (OutputChannel_append v c) = locked c"
  by (simp_all add: OutputChannel_append_def split: option.splits)

lemma appendLine_keeps [simp]:
  "name (OutputChannel_appendLine p l c) = name c"
  "disposed (OutputChannel_appendLine p l c) = disposed c"
  "visible (OutputChannel_appendLine p l c) = visible c"
  "locked (OutputChannel_appendLine p l c) = locked c"
  by (simp_all add: OutputChannel_appendLine_def Let_def split: option.splits)

lemma clear_keeps [simp]:
  "name (OutputChannel_clear c) = name c" "disposed (OutputChannel_clear c) = disposed c"
  "visible (OutputChannel_clear c) = visible c" "locked (OutputChannel_clear c) = locked c"
  by (simp_all add: OutputChannel_clear_def)

lemma toggleLocked_keeps [simp]:
  "name (OutputChannel_toggleLocked c) = name c"
  "disposed (OutputChannel_toggleLocked c) = disposed c"
  "visible (OutputChannel_toggleLocked c) = visible c"
  "locked (OutputChannel_toggleLocked c) = (\<not> locked c)"
  "lines (OutputChannel_toggleLocked c) = lines c"
  "currentLine (OutputChannel_toggleLocked c) = currentLine c"
  by (simp_all add: OutputChannel_toggleLocked_def)

lemma setVisibility_keeps [simp]:
  "name (OutputChannel_setVisibility v c) = name c"
  "disposed (OutputChannel_setVisibility v c) = disposed c"
  "visible (OutputChannel_setVisibility v c) = v"
  "locked (OutputChannel_setVisibility v c) = locked c"
  by (simp_all add: OutputChannel_setVisibility_def)

lemma dispose_keeps [simp]:
  "name (OutputChannel_dispose c) = name c" "disposed (OutputChannel_dispose c)"
  "visible (OutputChannel_dispose c) = visible c" "locked (OutputChannel_dispose c) = locked c"
  by (simp_all add: OutputChannel_dispose_def)

lemma same_registry_dispose [simp]: "same_registry s (channel_dispose r s)"
  by (simp add: channel_dispose_def same_registry_update)

lemma same_registry_append [simp]: "same_registry s (channel_append r v s)"
  by (simp add: channel_append_def same_registry_update)

lemma same_registry_appendLine [simp]: "same_registry s (channel_appendLine r l s)"
  by (simp add: channel_appendLine_def same_registry_update)

lemma same_registry_clear [simp]: "same_registry s (channel_clear r s)"
  by (simp add: channel_clear_def same_registry_update)

lemma same_registry_toggleLocked [simp]: "same_registry s (channel_toggleLocked r s)"
proof -
  have "same_registry s (update_channel r OutputChannel_toggleLocked s)"
    by (simp add: same_registry_update)
  then show ?thesis
    unfolding channel_toggleLocked_def Let_def
    by (auto intro: same_registry_trans [OF _ same_registry_fire])
qed

lemma same_registry_setVisibility [simp]: "same_registry s (channel_setVisibility r v s)"
proof -
  have "same_registry s (update_channel r (OutputChannel_setVisibility v) s)"
    by (simp add: same_registry_update)
  then show ?thesis
    unfolding channel_setVisibility_def Let_def
    by (auto intro: same_registry_trans [OF _ same_registry_select])
qed

lemma same_registry_toggleScrollLock [simp]: "same_registry s (toggleScrollLock c s)"
  by (simp add: toggleScrollLock_def Let_def split: option.splits)

lemma same_registry_onStart [simp]: "same_registry s (onStart s)"
  by (simp add: onStart_def same_registry_def split: option.splits)

lemma same_registry_onStop [simp]: "same_registry s (onStop s)"
  by (simp add: onStop_def same_registry_def)

lemma dispose_all_length [simp]: "length (dispose_all coll h) = length h"
  unfolding dispose_all_def by (induction coll arbitrary: h) simp_all

lemma dispose_all_nth:
  "i < length h \<Longrightarrow>
   dispose_all coll h ! i = (if i \<in> set coll then OutputChannel_dispose (h ! i) else h ! i)"
  unfolding dispose_all_def
proof (induction coll arbitrary: h)
  case Nil
  then show ?case by simp
next
  case (Cons r coll)
  then show ?case
    by (cases "i = r") (simp_all add: OutputChannel_dispose_def)
qed

lemma set_update_subset: "set (AList.update k v al) \<subseteq> insert (k, v) (set al)"
  by (induction al) auto

lemma set_delete_conv: "set (AList.delete k al) = {p \<in> set al. fst p \<noteq> k}"
  by (induction al) auto

lemma set_update_fresh:
  "map_of al k = None \<Longrightarrow> set (AList.update k v al) = insert (k, v) (set al)"
  by (induction al) (auto split: if_splits)

lemma registerListener_channels [simp]:
  "channels (registerListener r s) = channels s"
  by (simp add: registerListener_def Let_def channel_toggleLocked_def update_channel_def
      set_selectedChannel_def fire_def)

lemma registerListener_heap_length [simp]:
  "length (heap (registerListener r s)) = length (heap s)"
  by (simp add: registerListener_def Let_def channel_toggleLocked_def update_channel_def
      set_selectedChannel_def fire_def)

lemma registerListener_heap:
  "heap (registerListener r s) =
     (if name (heap s ! r) \<in> lockedChannels s \<and> \<not> locked (heap s ! r)
      then (heap s)[r := OutputChannel_toggleLocked (heap s ! r)] else heap s)"
  by (simp add: registerListener_def Let_def channel_toggleLocked_def update_channel_def
      set_selectedChannel_def fire_def)

lemma list_update_field:
  assumes "\<And>c. g (f c) = g c"
  shows "g (h[r := f (h ! r)] ! i) = g (h ! i)"
proof (cases "i = r \<and> r < length h")
  case True
  then show ?thesis using assms by simp
next
  case False
  then have "h[r := f (h ! r)] ! i = h ! i"
    by (cases "i = r") (simp_all add: not_less list_update_beyond)
  then show ?thesis by simp
qed

lemma toggled_nth:
  "name (h[r := OutputChannel_toggleLocked (h ! r)] ! i) = name (h ! i)"
  "disposed (h[r := OutputChannel_toggleLocked (h ! r)] ! i) = disposed (h ! i)"
  "visible (h[r := OutputChannel_toggleLocked (h ! r)] ! i) = visible (h ! i)"
  "lines (h[r := OutputChannel_toggleLocked (h ! r)] ! i) = lines (h ! i)"
  "currentLine (h[r := OutputChannel_toggleLocked (h ! r)] ! i) = currentLine (h ! i)"
  by (rule list_update_field, simp)+

lemma registerListener_heap_nth:
  "name (heap (registerListener r s) ! i) = name (heap s ! i)"
  "disposed (heap (registerListener r s) ! i) = disposed (heap s ! i)"
  "visible (heap (registerListener r s) ! i) = visible (heap s ! i)"
  "lines (heap (registerListener r s) ! i) = lines (heap s ! i)"
  "currentLine (heap (registerListener r s) ! i) = currentLine (heap s ! i)"
  by (simp_all add: registerListener_heap toggled_nth)

lemma registerListener_toDispose:
  "toDisposeOnChannelDeletion (registerListener r s) =
     AList.update (name (heap s ! r)) (collection s (name (heap s ! r)) @ [r])
       (toDisposeOnChannelDeletion s)"
  by (simp add: registerListener_def Let_def channel_toggleLocked_def update_channel_def
      set_selectedChannel_def fire_def collection_def)

lemma registerListener_selected:
  "selectedChannelValue (registerListener r s) =
     (case selectedChannelValue s of None \<Rightarrow> Some r | Some c \<Rightarrow> Some c)"
  by (simp add: registerListener_def Let_def channel_toggleLocked_def update_channel_def
      set_selectedChannel_def fire_def split: option.splits)

lemma update_fresh: "map_of al k = None \<Longrightarrow> AList.update k v al = al @ [(k, v)]"
  by (induction al) (auto split: if_splits)

lemma collection_update:
  "collection (s\<lparr>toDisposeOnChannelDeletion := AList.update k v (toDisposeOnChannelDeletion s)\<rparr>) k'
     = (if k' = k then v else collection s k')"
  by (simp add: collection_def update_conv')

lemma getChannel_existing:
  "map_of (channels s) n = Some r \<Longrightarrow> getChannel n s = (r, s)"
  by (simp add: getChannel_def)


lemma getChannel_new_channels:
  "map_of (channels s) n = None \<Longrightarrow>
   channels (snd (getChannel n s)) = channels s @ [(n, length (heap s))]"
  by (simp add: getChannel_def Let_def onChannelAdded_listener_def fire_def update_fresh)

lemma getChannel_new_heap_length:
  "map_of (channels s) n = None \<Longrightarrow>
   length (heap (snd (getChannel n s))) = Suc (length (heap s))"
  by (simp add: getChannel_def Let_def onChannelAdded_listener_def fire_def)

lemma getChannel_new_heap_old:
  assumes "map_of (channels s) n = None" "i < length (heap s)"
  shows "heap (snd (getChannel n s)) ! i = heap s ! i"
  using assms
  by (simp add: getChannel_def Let_def onChannelAdded_listener_def fire_def
      registerListener_def channel_toggleLocked_def update_channel_def set_selectedChannel_def
      nth_append)

lemma getChannel_new_heap_new:
  assumes "map_of (channels s) n = None"
  shows "heap (snd (getChannel n s)) ! length (heap s)
         = (OutputChannel_new n)\<lparr>locked := n \<in> lockedChannels s\<rparr>"
  using assms
  by (simp add: getChannel_def Let_def onChannelAdded_listener_def fire_def
      registerListener_def channel_toggleLocked_def update_channel_def set_selectedChannel_def
      nth_append OutputChannel_new_def OutputChannel_toggleLocked_def)

lemma getChannel_new_toDispose:
  assumes "map_of (channels s) n = None"
  shows "toDisposeOnChannelDeletion (snd (getChannel n s))
         = AList.update n (collection s n @ [length (heap s)]) (toDisposeOnChannelDeletion s)"
  using assms
  by (simp add: getChannel_def Let_def onChannelAdded_listener_def fire_def
      registerListener_toDispose collection_def OutputChannel_new_def)

lemma getChannel_new_selected:
  assumes "map_of (channels s) n = None"
  shows "selectedChannelValue (snd (getChannel n s))
         = (case selectedChannelValue s of None \<Rightarrow> Some (length (heap s)) | Some c \<Rightarrow> Some c)"
  using assms
  by (simp add: getChannel_def Let_def onChannelAdded_listener_def fire_def
      registerListener_selected)

lemma getChannel_lockedChannels [simp]:
  "lockedChannels (snd (getChannel n s)) = lockedChannels s"
  by (simp add: getChannel_def Let_def onChannelAdded_listener_def fire_def
      registerListener_def channel_toggleLocked_def update_channel_def set_selectedChannel_def
      split: option.splits)

lemma collection_memD:
  "r \<in> set (collection s n) \<Longrightarrow>
   \<exists>c. (n, c) \<in> set (toDisposeOnChannelDeletion s) \<and> r \<in> set c"
  by (cases "map_of (toDisposeOnChannelDeletion s) n")
    (auto simp add: collection_def dest: map_of_SomeD)

lemma manager_inv_getChannel:
  assumes inv: "manager_inv s"
  shows "manager_inv (snd (getChannel n s))"
proof (cases "map_of (channels s) n")
  case (Some r)
  then show ?thesis using inv by (simp add: getChannel_existing)
next
  case None
  let ?s = "snd (getChannel n s)" and ?r = "length (heap s)"
  note ch = getChannel_new_channels [OF None]
  note len = getChannel_new_heap_length [OF None]
  note old = getChannel_new_heap_old [OF None]
  note new = getChannel_new_heap_new [OF None]
  note td = getChannel_new_toDispose [OF None]
  have coll: "collection ?s k = (if k = n then collection s n @ [?r] else collection s k)" for k
    by (simp add: collection_def td update_conv')
  have fresh: "n \<notin> fst ` set (channels s)"
    using None by (simp add: map_of_eq_None_iff)
  have i1: "distinct (map fst (channels ?s))"
    using inv fresh by (simp add: ch manager_inv_def)
  have i2: "r < length (heap ?s) \<and> name (heap ?s ! r) = k \<and> r \<in> set (collection ?s k)"
    if "(k, r) \<in> set (channels ?s)" for k r
  proof (cases "(k, r) = (n, ?r)")
    case True
    then show ?thesis by (simp add: len new coll OutputChannel_new_def)
  next
    case False
    with that have m: "(k, r) \<in> set (channels s)" by (auto simp add: ch)
    with inv have "r < length (heap s)" "name (heap s ! r) = k" "r \<in> set (collection s k)"
      unfolding manager_inv_def by auto
    then show ?thesis by (auto simp add: len old coll)
  qed
  have i3: "r < length (heap ?s) \<and> name (heap ?s ! r) = k"
    if "(k, c) \<in> set (toDisposeOnChannelDeletion ?s)" "r \<in> set c" for k c r
  proof -
    have "r = ?r \<and> k = n \<or> r < length (heap s) \<and> name (heap s ! r) = k"
    proof (cases "(k, c) \<in> set (toDisposeOnChannelDeletion s)")
      case True
      with inv that show ?thesis unfolding manager_inv_def by auto
    next
      case False
      with that(1) have kc: "k = n" "c = collection s n @ [?r]"
        using set_update_subset [of n "collection s n @ [?r]" "toDisposeOnChannelDeletion s"]
        by (auto simp add: td)
      show ?thesis
      proof (cases "r = ?r")
        case True
        then show ?thesis using kc by simp
      next
        case False
        with that(2) kc have "r \<in> set (collection s n)" by simp
        then obtain c' where "(n, c') \<in> set (toDisposeOnChannelDeletion s)" "r \<in> set c'"
          by (auto dest: collection_memD)
        with inv kc show ?thesis unfolding manager_inv_def by auto
      qed
    qed
    then show ?thesis by (auto simp add: len old new OutputChannel_new_def)
  qed
  have i4: "r \<in> registered ?s" if "r < length (heap ?s)" "\<not> disposed (heap ?s ! r)" for r
  proof (cases "r = ?r")
    case True
    then show ?thesis by (simp add: registered_def ch)
  next
    case False
    with that have "r < length (heap s)" "\<not> disposed (heap s ! r)"
      by (simp_all add: len old)
    with inv have "r \<in> registered s" unfolding manager_inv_def by simp
    then show ?thesis by (auto simp add: registered_def ch)
  qed
  show ?thesis
    unfolding manager_inv_def using i1 i2 i3 i4 by blast
qed

lemma deleteChannel_missing:
  "map_of (channels s) n = None \<Longrightarrow> deleteChannel n s = warn (CouldNotDelete n) s"
  by (simp add: deleteChannel_def)

lemma listener_delete_fields [simp]:
  "channels (onChannelDelete_listener n s) = channels s"
  "heap (onChannelDelete_listener n s) = heap s"
  "toDisposeOnChannelDeletion (onChannelDelete_listener n s) = toDisposeOnChannelDeletion s"
  "lockedChannels (onChannelDelete_listener n s) = lockedChannels s"
  "storage (onChannelDelete_listener n s) = storage s"
  "console (onChannelDelete_listener n s) = console s"
  by (simp_all add: onChannelDelete_listener_def Let_def fire_def set_selectedChannel_def
      split: option.splits)

lemma deleteChannel_channels:
  "map_of (channels s) n = Some r \<Longrightarrow>
   channels (deleteChannel n s) = AList.delete n (channels s)"
  by (simp add: deleteChannel_def Let_def fire_def split: option.splits)

lemma deleteChannel_heap:
  "map_of (channels s) n = Some r \<Longrightarrow>
   heap (deleteChannel n s) = dispose_all (collection s n) (heap s)"
  by (simp add: deleteChannel_def Let_def fire_def collection_def dispose_all_def
      split: option.splits)

lemma deleteChannel_toDispose:
  "map_of (channels s) n = Some r \<Longrightarrow>
   toDisposeOnChannelDeletion (deleteChannel n s) =
     (case map_of (toDisposeOnChannelDeletion s) n of
        None \<Rightarrow> toDisposeOnChannelDeletion s
      | Some c \<Rightarrow> AList.update n [] (toDisposeOnChannelDeletion s))"
  by (simp add: deleteChannel_def Let_def fire_def split: option.splits)

lemma deleteChannel_selected:
  "map_of (channels s) n = Some r \<Longrightarrow>
   selectedChannelValue (deleteChannel n s) =
     (case selectedChannelValue s of
        None \<Rightarrow> None
      | Some sel \<Rightarrow>
          if name (heap (deleteChannel n s) ! sel) = n
          then first (getVisibleChannels (deleteChannel n s))
          else Some sel)"
  by (simp add: deleteChannel_def Let_def fire_def onChannelDelete_listener_def
      set_selectedChannel_def getVisibleChannels_def getChannels_def
      split: option.splits)

lemma deleteChannel_lockedChannels [simp]:
  "lockedChannels (deleteChannel n s) = lockedChannels s"
  by (simp add: deleteChannel_def Let_def fire_def warn_def split: option.splits)

lemma dispose_all_name [simp]:
  "i < length h \<Longrightarrow> name (dispose_all coll h ! i) = name (h ! i)"
  by (simp add: dispose_all_nth OutputChannel_dispose_def)

lemma dispose_all_disposed:
  "i < length h \<Longrightarrow>
   disposed (dispose_all coll h ! i) = (i \<in> set coll \<or> disposed (h ! i))"
  by (simp add: dispose_all_nth OutputChannel_dispose_def)

lemma manager_inv_deleteChannel:
  assumes inv: "manager_inv s"
  shows "manager_inv (deleteChannel n s)"
proof (cases "map_of (channels s) n")
  case None
  then show ?thesis
    using inv same_registry_inv [OF same_registry_warn] by (simp add: deleteChannel_missing)
next
  case (Some existing)
  let ?s = "deleteChannel n s"
  note ch = deleteChannel_channels [OF Some]
  note hp = deleteChannel_heap [OF Some]
  note td = deleteChannel_toDispose [OF Some]
  have coll: "collection ?s k = (if k = n then [] else collection s k)" for k
    by (auto simp add: collection_def td update_conv' split: option.splits)
  have named: "r < length (heap s) \<and> name (heap s ! r) = n" if "r \<in> set (collection s n)" for r
  proof -
    from that obtain c where "(n, c) \<in> set (toDisposeOnChannelDeletion s)" "r \<in> set c"
      by (auto dest: collection_memD)
    with inv show ?thesis unfolding manager_inv_def by auto
  qed
  have i1: "distinct (map fst (channels ?s))"
    using inv by (simp add: ch manager_inv_def distinct_delete)
  have i2: "r < length (heap ?s) \<and> name (heap ?s ! r) = k \<and> r \<in> set (collection ?s k)"
    if "(k, r) \<in> set (channels ?s)" for k r
  proof -
    from that have k: "k \<noteq> n" "(k, r) \<in> set (channels s)"
      by (auto simp add: ch set_delete_conv)
    with inv have old: "r < length (heap s)" "name (heap s ! r) = k" "r \<in> set (collection s k)"
      unfolding manager_inv_def by auto
    with k named [of r] have "r \<notin> set (collection s n)" by auto
    with old k show ?thesis by (simp add: hp coll dispose_all_disposed)
  qed
  have i3: "r < length (heap ?s) \<and> name (heap ?s ! r) = k"
    if "(k, c) \<in> set (toDisposeOnChannelDeletion ?s)" "r \<in> set c" for k c r
  proof -
    have "(k, c) \<in> set (toDisposeOnChannelDeletion s)"
      using that set_update_subset [of n "[]" "toDisposeOnChannelDeletion s"]
      by (auto simp add: td split: option.splits)
    with inv that(2) have "r < length (heap s)" "name (heap s ! r) = k"
      unfolding manager_inv_def by auto
    then show ?thesis by (simp add: hp)
  qed
  have i4: "r \<in> registered ?s" if "r < length (heap ?s)" "\<not> disposed (heap ?s ! r)" for r
  proof -
    from that have r: "r < length (heap s)" "\<not> disposed (heap s ! r)" "r \<notin> set (collection s n)"
      by (simp_all add: hp dispose_all_disposed)
    with inv have "r \<in> registered s" unfolding manager_inv_def by simp
    then obtain k where k: "(k, r) \<in> set (channels s)" by (auto simp add: registered_def)
    with inv have "r \<in> set (collection s k)" unfolding manager_inv_def by auto
    with r have "k \<noteq> n" by auto
    with k show ?thesis by (force simp add: registered_def ch set_delete_conv)
  qed
  show ?thesis
    unfolding manager_inv_def using i1 i2 i3 i4 by blast
qed

lemma manager_inv_exec: "manager_inv s \<Longrightarrow> manager_inv (exec x s)"
  by (cases x)
    (simp_all add: manager_inv_getChannel manager_inv_deleteChannel
      same_registry_inv [OF same_registry_select] same_registry_inv [OF same_registry_toggleScrollLock]
      same_registry_inv [OF same_registry_onStart] same_registry_inv [OF same_registry_onStop]
      same_registry_inv [OF same_registry_append] same_registry_inv [OF same_registry_appendLine]
      same_registry_inv [OF same_registry_clear] same_registry_inv [OF same_registry_setVisibility]
      same_registry_inv [OF same_registry_toggleLocked]
      same_registry_inv [OF same_registry_dispose])

lemma manager_inv_step: "manager_inv s \<Longrightarrow> manager_inv (step x s)"
  by (simp add: step_def manager_inv_exec)

lemma manager_inv_run: "manager_inv s \<Longrightarrow> manager_inv (run xs s)"
  by (induction xs arbitrary: s) (simp_all add: manager_inv_step)

lemma manager_inv_new: "manager_inv (OutputChannelManager_new prefs stored)"
  by (simp add: manager_inv_def OutputChannelManager_new_def)

subsection \<open>The selection\<close>

lemmas manager_defs =
  getChannel_def deleteChannel_def onChannelAdded_listener_def onChannelDelete_listener_def
  registerListener_def channel_toggleLocked_def channel_setVisibility_def update_channel_def
  set_selectedChannel_def fire_def warn_def getVisibleChannels_def getChannels_def first_def
  channel_dispose_def
  toggleScrollLock_def onStart_def onStop_def locked_names_def dispose_all_def
  channel_append_def channel_appendLine_def channel_clear_def
  OutputChannel_new_def OutputChannel_toggleLocked_def OutputChannel_setVisibility_def
  OutputChannel_dispose_def OutputChannelManager_new_def step_def

lemma first_in: "first xs = Some r \<Longrightarrow> r \<in> set xs"
  by (cases xs) (simp_all add: first_def)

lemma first_visible_registered:
  "first (getVisibleChannels s) = Some r \<Longrightarrow> r \<in> registered s"
  by (auto dest!: first_in simp add: getVisibleChannels_def getChannels_def registered_def)

lemma toggleLocked_fields [simp]:
  "channels (channel_toggleLocked r s) = channels s"
  "selectedChannelValue (channel_toggleLocked r s) = selectedChannelValue s"
  "lockedChannels (channel_toggleLocked r s) = lockedChannels s"
  by (simp_all add: channel_toggleLocked_def Let_def update_channel_def fire_def)

lemma toggleScrollLock_fields [simp]:
  "channels (toggleScrollLock c s) = channels s"
  "selectedChannelValue (toggleScrollLock c s) = selectedChannelValue s"
  "lockedChannels (toggleScrollLock c s) = lockedChannels s"
  by (simp_all add: toggleScrollLock_def Let_def warn_def split: option.splits)

lemma update_channel_fields [simp]:
  "channels (update_channel r f s) = channels s"
  "selectedChannelValue (update_channel r f s) = selectedChannelValue s"
  "lockedChannels (update_channel r f s) = lockedChannels s"
  "length (heap (update_channel r f s)) = length (heap s)"
  by (simp_all add: update_channel_def)

lemma select_fields [simp]:
  "channels (set_selectedChannel c s) = channels s"
  "selectedChannelValue (set_selectedChannel c s) = c"
  "lockedChannels (set_selectedChannel c s) = lockedChannels s"
  "heap (set_selectedChannel c s) = heap s"
  by (simp_all add: set_selectedChannel_def fire_def)

lemma setVisibility_channels [simp]:
  "channels (channel_setVisibility r v s) = channels s"
  by (simp add: channel_setVisibility_def Let_def)

lemma setVisibility_selected:
  "selectedChannelValue (channel_setVisibility r v s) =
     (let s1 = update_channel r (OutputChannel_setVisibility v) s
      in if disposed (heap s1 ! r) then selectedChannelValue s
         else if v then Some r
         else if selectedChannelValue s = Some r then first (getVisibleChannels s1)
         else selectedChannelValue s)"
  by (simp add: channel_setVisibility_def Let_def)

lemma selection_ok_setVisibility:
  assumes "manager_inv s" "selection_ok s" "r < length (heap s)"
  shows "selection_ok (channel_setVisibility r v s)"
proof -
  let ?s1 = "update_channel r (OutputChannel_setVisibility v) s"
  let ?s = "channel_setVisibility r v s"
  have reg: "registered ?s = registered s" "registered ?s1 = registered s"
    by (simp_all add: registered_def)
  have d: "disposed (heap ?s1 ! r) = disposed (heap s ! r)"
    using assms(3) by (simp add: update_channel_def)
  have live: "\<not> disposed (heap s ! r) \<Longrightarrow> r \<in> registered s"
    using assms(1,3) unfolding manager_inv_def by simp
  have "selectedChannelValue ?s = selectedChannelValue s
      \<or> selectedChannelValue ?s = Some r \<and> \<not> disposed (heap s ! r)
      \<or> selectedChannelValue ?s = first (getVisibleChannels ?s1)"
    unfolding setVisibility_selected Let_def d by simp
  then consider (same) "selectedChannelValue ?s = selectedChannelValue s"
    | (this) "selectedChannelValue ?s = Some r" "\<not> disposed (heap s ! r)"
    | (first) "selectedChannelValue ?s = first (getVisibleChannels ?s1)"
    by blast
  then show ?thesis
  proof cases
    case same
    then show ?thesis using assms(2) by (simp add: selection_ok_def reg)
  next
    case this
    then show ?thesis using live by (simp add: selection_ok_def reg)
  next
    case first
    show ?thesis
    proof (cases "first (getVisibleChannels ?s1)")
      case None
      then show ?thesis using first by (simp add: selection_ok_def)
    next
      case (Some c)
      then have "c \<in> registered ?s1" by (rule first_visible_registered)
      then show ?thesis using first Some by (simp add: selection_ok_def reg)
    qed
  qed
qed

lemma selection_ok_getChannel:
  assumes "selection_ok s"
  shows "selection_ok (snd (getChannel n s))"
proof (cases "map_of (channels s) n")
  case None
  show ?thesis
    using assms
    by (auto simp add: selection_ok_def registered_def getChannel_new_selected [OF None]
        getChannel_new_channels [OF None] split: option.splits)
next
  case (Some r)
  then show ?thesis using assms by (simp add: getChannel_existing)
qed

lemma selection_ok_deleteChannel:
  assumes inv: "manager_inv s" and sel: "selection_ok s"
  shows "selection_ok (deleteChannel n s)"
proof (cases "map_of (channels s) n")
  case None
  then show ?thesis
    using sel by (simp add: deleteChannel_missing selection_ok_def warn_def registered_def)
next
  case (Some existing)
  let ?s = "deleteChannel n s"
  show ?thesis
  proof (cases "selectedChannelValue s")
    case None
    then show ?thesis by (simp add: selection_ok_def deleteChannel_selected [OF Some])
  next
    case (Some c)
    with sel obtain k where k: "(k, c) \<in> set (channels s)"
      by (auto simp add: selection_ok_def registered_def)
    with inv have c: "c < length (heap s)" "name (heap s ! c) = k"
      unfolding manager_inv_def by auto
    then have nm: "name (heap ?s ! c) = k"
      by (simp add: deleteChannel_heap [OF \<open>map_of (channels s) n = Some existing\<close>])
    show ?thesis
    proof (cases "k = n")
      case True
      then show ?thesis
        using Some nm first_visible_registered [of ?s]
        by (auto simp add: selection_ok_def
            deleteChannel_selected [OF \<open>map_of (channels s) n = Some existing\<close>]
            split: option.splits)
    next
      case False
      with k have "c \<in> registered ?s"
        by (force simp add: registered_def set_delete_conv
            deleteChannel_channels [OF \<open>map_of (channels s) n = Some existing\<close>])
      then show ?thesis
        using Some nm False
        by (simp add: selection_ok_def
            deleteChannel_selected [OF \<open>map_of (channels s) n = Some existing\<close>])
    qed
  qed
qed

lemma onStart_fields [simp]:
  "channels (onStart s) = channels s"
  "selectedChannelValue (onStart s) = selectedChannelValue s"
  "heap (onStart s) = heap s"
  by (simp_all add: onStart_def split: option.splits)

lemma onStop_fields [simp]:
  "channels (onStop s) = channels s"
  "selectedChannelValue (onStop s) = selectedChannelValue s"
  "heap (onStop s) = heap s"
  "lockedChannels (onStop s) = lockedChannels s"
  by (simp_all add: onStop_def)

lemma selection_ok_cong:
  "channels s' = channels s \<Longrightarrow> selectedChannelValue s' = selectedChannelValue s \<Longrightarrow>
   selection_ok s \<Longrightarrow> selection_ok s'"
  by (simp add: selection_ok_def registered_def)

lemma selection_ok_exec:
  assumes "manager_inv s" "selection_ok s" "selects_registered x s"
    "list_all (\<lambda>r. r < length (heap s)) (refs_of x)"
  shows "selection_ok (exec x s)"
proof (cases x)
  case (GetChannel n)
  then show ?thesis using assms by (simp add: selection_ok_getChannel)
next
  case (DeleteChannel n)
  then show ?thesis using assms by (simp add: selection_ok_deleteChannel)
next
  case (SetSelectedChannel c)
  then show ?thesis using assms
    by (cases c) (simp_all add: selection_ok_def registered_def)
next
  case (ChannelSetVisibility r v)
  then show ?thesis using assms by (simp add: selection_ok_setVisibility)
next
  case (ToggleScrollLock c)
  then show ?thesis by (simp add: selection_ok_cong [OF _ _ assms(2)])
next
  case OnStart
  then show ?thesis by (simp add: selection_ok_cong [OF _ _ assms(2)])
next
  case OnStop
  then show ?thesis by (simp add: selection_ok_cong [OF _ _ assms(2)])
next
  case (ChannelAppend r v)
  then show ?thesis by (simp add: selection_ok_cong [OF _ _ assms(2)] channel_append_def)
next
  case (ChannelAppendLine r l)
  then show ?thesis by (simp add: selection_ok_cong [OF _ _ assms(2)] channel_appendLine_def)
next
  case (ChannelClear r)
  then show ?thesis by (simp add: selection_ok_cong [OF _ _ assms(2)] channel_clear_def)
next
  case (ChannelToggleLocked r)
  then show ?thesis by (simp add: selection_ok_cong [OF _ _ assms(2)])
next
  case (ChannelDispose r)
  then show ?thesis by (simp add: selection_ok_cong [OF _ _ assms(2)] channel_dispose_def)
qed

lemma selection_ok_run:
  "manager_inv s \<Longrightarrow> selection_ok s \<Longrightarrow> admissible xs s \<Longrightarrow> selection_ok (run xs s)"
proof (induction xs arbitrary: s)
  case Nil
  then show ?case by simp
next
  case (Cons x xs)
  have "selection_ok (step x s)"
    using Cons.prems selection_ok_exec [of s x] by (simp add: step_def)
  moreover have "manager_inv (step x s)" using Cons.prems by (simp add: manager_inv_step)
  ultimately show ?case using Cons by simp
qed

lemma registered_lookup:
  "manager_inv s \<Longrightarrow> r \<in> registered s \<Longrightarrow> map_of (channels s) (name (heap s ! r)) = Some r"
  unfolding manager_inv_def registered_def by (auto simp add: rev_image_eqI)

text \<open>
  C6. In every state that the manager reaches from its initial state by channel creation,
  deletion, visibility changes, the other channel operations and calls of the selection
  setter that pass a registered channel or none, at most one channel is selected, and the
  selection is absent or a channel that the registry holds under some name.
\<close>

theorem C6_selection_registered:
  "admissible xs (OutputChannelManager_new prefs stored) \<Longrightarrow>
     (\<forall>c c'. selectedChannelValue (run xs (OutputChannelManager_new prefs stored)) = Some c
         \<and> selectedChannelValue (run xs (OutputChannelManager_new prefs stored)) = Some c'
         \<longrightarrow> c = c')
   \<and> (selectedChannelValue (run xs (OutputChannelManager_new prefs stored)) = None
      \<or> (\<exists>c n. selectedChannelValue (run xs (OutputChannelManager_new prefs stored)) = Some c
            \<and> map_of (channels (run xs (OutputChannelManager_new prefs stored))) n = Some c))"
proof -
  assume a: "admissible xs (OutputChannelManager_new prefs stored)"
  let ?s = "run xs (OutputChannelManager_new prefs stored)"
  have inv: "manager_inv ?s" by (simp add: manager_inv_run manager_inv_new)
  have "selection_ok (OutputChannelManager_new prefs stored)"
    by (simp add: selection_ok_def OutputChannelManager_new_def)
  then have sel: "selection_ok ?s" using a by (simp add: selection_ok_run manager_inv_new)
  have "selectedChannelValue ?s = None
      \<or> (\<exists>c n. selectedChannelValue ?s = Some c \<and> map_of (channels ?s) n = Some c)"
  proof (cases "selectedChannelValue ?s")
    case None
    then show ?thesis by simp
  next
    case (Some c)
    with sel have "c \<in> registered ?s" by (simp add: selection_ok_def)
    from registered_lookup [OF inv this] Some show ?thesis by blast
  qed
  moreover have "\<forall>c c'. selectedChannelValue ?s = Some c \<and> selectedChannelValue ?s = Some c'
      \<longrightarrow> c = c'"
    by auto
  ultimately show ?thesis by blast
qed

theorem C6_selection_registered_witness:
  "admissible
     [GetChannel ''one'', GetChannel ''two'', ChannelSetVisibility 1 True,
      SetSelectedChannel (Some 0), DeleteChannel ''one'']
     (OutputChannelManager_new \<lparr>maxChannelHistory = Finite 1000\<rparr> None)
   \<and> selectedChannelValue
       (run [GetChannel ''one'', GetChannel ''two'', ChannelSetVisibility 1 True,
             SetSelectedChannel (Some 0), DeleteChannel ''one'']
          (OutputChannelManager_new \<lparr>maxChannelHistory = Finite 1000\<rparr> None)) = Some 1
   \<and> map_of (channels
       (run [GetChannel ''one'', GetChannel ''two'', ChannelSetVisibility 1 True,
             SetSelectedChannel (Some 0), DeleteChannel ''one'']
          (OutputChannelManager_new \<lparr>maxChannelHistory = Finite 1000\<rparr> None))) ''two'' = Some 1"
  using C6_selection_registered [of
      "[GetChannel ''one'', GetChannel ''two'', ChannelSetVisibility 1 True,
        SetSelectedChannel (Some 0), DeleteChannel ''one'']"
      "\<lparr>maxChannelHistory = Finite 1000\<rparr>" None]
  by (simp add: manager_defs Let_def registered_def)

text \<open>
  The setter takes any channel object. A client that kept the reference of a deleted channel
  can select it: the selection is then a channel that the registry does not hold.
\<close>

theorem C6_counterexample:
  "selectedChannelValue
     (run [GetChannel ''one'', DeleteChannel ''one'', SetSelectedChannel (Some 0)]
        (OutputChannelManager_new \<lparr>maxChannelHistory = Finite 1000\<rparr> None)) = Some 0
   \<and> channels
     (run [GetChannel ''one'', DeleteChannel ''one'', SetSelectedChannel (Some 0)]
        (OutputChannelManager_new \<lparr>maxChannelHistory = Finite 1000\<rparr> None)) = []"
  by (simp add: manager_defs Let_def)

subsection \<open>Deleting channels\<close>













subsection \<open>Visibility and selection\<close>





subsection \<open>The two warnings\<close>

text \<open>
  C7. \<open>deleteChannel\<close> of a name that the registry does not hold writes one warning and changes
  nothing else: the registry, the selection, every channel and the fired events (so no delete
  event) are as before. \<open>toggleScrollLock()\<close> without an argument and without a selection
  writes one warning and changes nothing else, in particular no lock flag.
\<close>

theorem C7_warnings_change_nothing:
  "(map_of (channels s) n = None \<longrightarrow>
      deleteChannel n s = s\<lparr>console := console s @ [CouldNotDelete n]\<rparr>
    \<and> channels (deleteChannel n s) = channels s
    \<and> selectedChannelValue (deleteChannel n s) = selectedChannelValue s
    \<and> heap (deleteChannel n s) = heap s
    \<and> fired (deleteChannel n s) = fired s)
 \<and> (selectedChannelValue s = None \<longrightarrow>
      toggleScrollLock None s = s\<lparr>console := console s @ [ChannelDoesNotExist]\<rparr>
    \<and> heap (toggleScrollLock None s) = heap s
    \<and> fired (toggleScrollLock None s) = fired s)"
  by (simp add: deleteChannel_def toggleScrollLock_def warn_def)

theorem C7_warnings_change_nothing_witness:
  "map_of (channels (run [GetChannel ''one'', GetChannel ''two'', DeleteChannel ''one'',
        DeleteChannel ''two''] (OutputChannelManager_new \<lparr>maxChannelHistory = Finite 1000\<rparr> None)))
      ''three'' = None
   \<and> selectedChannelValue (run [GetChannel ''one'', GetChannel ''two'', DeleteChannel ''one'',
        DeleteChannel ''two''] (OutputChannelManager_new \<lparr>maxChannelHistory = Finite 1000\<rparr> None))
      = None
   \<and> console (deleteChannel ''three''
        (run [GetChannel ''one'', GetChannel ''two'', DeleteChannel ''one'', DeleteChannel ''two'']
           (OutputChannelManager_new \<lparr>maxChannelHistory = Finite 1000\<rparr> None)))
      = [CouldNotDelete ''three'']
   \<and> console (toggleScrollLock None
        (run [GetChannel ''one'', GetChannel ''two'', DeleteChannel ''one'', DeleteChannel ''two'']
           (OutputChannelManager_new \<lparr>maxChannelHistory = Finite 1000\<rparr> None)))
      = [ChannelDoesNotExist]
   \<and> heap (toggleScrollLock None
        (run [GetChannel ''one'', GetChannel ''two'', DeleteChannel ''one'', DeleteChannel ''two'']
           (OutputChannelManager_new \<lparr>maxChannelHistory = Finite 1000\<rparr> None)))
      = heap (run [GetChannel ''one'', GetChannel ''two'', DeleteChannel ''one'',
           DeleteChannel ''two''] (OutputChannelManager_new \<lparr>maxChannelHistory = Finite 1000\<rparr> None))"
proof -
  let ?s = "run [GetChannel ''one'', GetChannel ''two'', DeleteChannel ''one'', DeleteChannel ''two'']
           (OutputChannelManager_new \<lparr>maxChannelHistory = Finite 1000\<rparr> None)"
  have s: "map_of (channels ?s) ''three'' = None" "selectedChannelValue ?s = None"
    "console ?s = []"
    by (simp_all add: manager_defs Let_def)
  with C7_warnings_change_nothing [of ?s "''three''"] show ?thesis by simp
qed

subsection \<open>Creating channels\<close>



lemma registerListener_added [simp]:
  "channelAdded_events (registerListener r s) = channelAdded_events s"
  by (simp add: channelAdded_events_def registerListener_def Let_def channel_toggleLocked_def
      update_channel_def set_selectedChannel_def fire_def)








subsection \<open>Recorded locked names\<close>

lemma record_locked_fields [simp]:
  "channels (record_locked N s) = channels s"
  "heap (record_locked N s) = heap s"
  "selectedChannelValue (record_locked N s) = selectedChannelValue s"
  "storage (record_locked N s) = storage s"
  "lockedChannels (record_locked N s) = insert N (lockedChannels s)"
  by (simp_all add: record_locked_def)

















lemma exec_lockedChannels: "lockedChannels s \<subseteq> lockedChannels (exec x s)"
proof (cases x)
  case OnStart
  then show ?thesis by (auto simp add: onStart_def split: option.splits)
next
  case (ChannelSetVisibility r v)
  then show ?thesis
    by (simp add: channel_setVisibility_def Let_def)
qed (simp_all add: channel_append_def channel_appendLine_def channel_clear_def
      channel_dispose_def)

lemma run_lockedChannels: "N \<in> lockedChannels s \<Longrightarrow> N \<in> lockedChannels (run xs s)"
proof (induction xs arbitrary: s)
  case Nil
  then show ?case by simp
next
  case (Cons x xs)
  have "N \<in> lockedChannels (step x s)"
    using Cons.prems exec_lockedChannels [of s x] by (auto simp add: step_def)
  then show ?case using Cons.IH by simp
qed



lemma channels_exec_other:
  assumes "x \<noteq> GetChannel N" and "map_of (channels s) N = None"
  shows "map_of (channels (exec x s)) N = None"
proof (cases x)
  case (GetChannel n)
  with assms(1) have n: "n \<noteq> N" by simp
  show ?thesis
  proof (cases "map_of (channels s) n")
    case None
    then show ?thesis
      using GetChannel n assms(2) by (simp add: getChannel_new_channels map_add_def)
  next
    case (Some r)
    then show ?thesis using GetChannel assms(2) by (simp add: getChannel_existing)
  qed
next
  case (DeleteChannel n)
  show ?thesis
  proof (cases "map_of (channels s) n")
    case None
    then show ?thesis
      using DeleteChannel assms(2) by (simp add: deleteChannel_missing warn_def)
  next
    case (Some r)
    then show ?thesis
      using DeleteChannel assms(2) by (simp add: deleteChannel_channels delete_conv')
  qed
qed (simp_all add: assms(2) channel_append_def channel_appendLine_def channel_clear_def
      channel_dispose_def)

lemma channels_run_other:
  "GetChannel N \<notin> set xs \<Longrightarrow> map_of (channels s) N = None \<Longrightarrow>
   map_of (channels (run xs s)) N = None"
proof (induction xs arbitrary: s)
  case Nil
  then show ?case by simp
next
  case (Cons x xs)
  then have x: "x \<noteq> GetChannel N" "GetChannel N \<notin> set xs" by auto
  have "map_of (channels (step x s)) N = None"
    using channels_exec_other [OF x(1) Cons.prems(2)] Cons.prems(2) by (simp add: step_def)
  then show ?case using Cons.IH [OF x(2)] by simp
qed

lemma locked_names_alist:
  "\<forall>(n, r) \<in> set al. name (h ! r) = n \<Longrightarrow>
   map name (filter locked (map (\<lambda>r. h ! r) (map snd al)))
     = map fst (filter (\<lambda>(n, r). locked (h ! r)) al)"
  by (induction al) auto

lemma locked_names_registry:
  assumes "manager_inv s"
  shows "locked_names s = map fst (filter (\<lambda>(n, r). locked (heap s ! r)) (channels s))"
proof -
  have "\<forall>(n, r) \<in> set (channels s). name (heap s ! r) = n"
    using assms unfolding manager_inv_def by auto
  then show ?thesis
    unfolding locked_names_def getChannels_def by (rule locked_names_alist)
qed

lemma locked_names_member:
  assumes "manager_inv s"
  shows "n \<in> set (locked_names s) \<longleftrightarrow> (\<exists>r. map_of (channels s) n = Some r \<and> locked (heap s ! r))"
proof -
  have d: "distinct (map fst (channels s))" using assms by (simp add: manager_inv_def)
  show ?thesis
    unfolding locked_names_registry [OF assms] using d by (force simp add: image_iff)
qed




subsection \<open>What \<open>onStop\<close> persists\<close>

text \<open>
  C10. In every state that the manager reaches, \<open>onStop\<close> changes the stored value only, and
  stores the names of the channels of the registry whose lock flag is true, in registry
  order: a name is stored exactly when the registry holds a locked channel under it. A name
  that is not registered is not stored, also when \<open>onStart\<close> had recorded it, and a session
  that starts from the stored value does not record it. A name for which \<open>getChannel\<close> was
  never called in the run is not registered.
\<close>

theorem C10_onStop_persists_registry:
  assumes "s = run xs (OutputChannelManager_new prefs stored)"
  shows "onStop s =
           s\<lparr>storage := Some (map fst (filter (\<lambda>(n, r). locked (heap s ! r)) (channels s)))\<rparr>
       \<and> (\<forall>n. n \<in> set (the (storage (onStop s)))
              \<longleftrightarrow> (\<exists>r. map_of (channels s) n = Some r \<and> locked (heap s ! r)))
       \<and> (map_of (channels s) N = None \<longrightarrow>
            N \<notin> set (the (storage (onStop s)))
          \<and> N \<notin> lockedChannels (onStart (OutputChannelManager_new prefs' (storage (onStop s)))))
       \<and> (GetChannel N \<notin> set xs \<longrightarrow> map_of (channels s) N = None)
       \<and> (stored = Some names \<and> N \<in> set names \<and> xs = OnStart # ys
            \<and> GetChannel N \<notin> set ys \<longrightarrow>
            N \<in> lockedChannels s \<and> N \<notin> set (the (storage (onStop s))))"
proof -
  have inv: "manager_inv s" unfolding assms by (rule manager_inv_run [OF manager_inv_new])
  have stop: "onStop s =
      s\<lparr>storage := Some (map fst (filter (\<lambda>(n, r). locked (heap s ! r)) (channels s)))\<rparr>"
    by (simp add: onStop_def locked_names_registry [OF inv])
  have st: "the (storage (onStop s)) = locked_names s" by (simp add: onStop_def)
  have mem: "\<forall>n. n \<in> set (the (storage (onStop s)))
      \<longleftrightarrow> (\<exists>r. map_of (channels s) n = Some r \<and> locked (heap s ! r))"
    unfolding st using locked_names_member [OF inv] by blast
  have absent: "N \<notin> set (the (storage (onStop s)))" if "map_of (channels s) N = None"
    using that mem by simp
  have next_session: "N \<notin> lockedChannels (onStart (OutputChannelManager_new prefs'
      (storage (onStop s))))" if "map_of (channels s) N = None"
    using absent [OF that] by (simp add: onStart_def onStop_def OutputChannelManager_new_def)
  have never: "map_of (channels s) N = None" if "GetChannel N \<notin> set xs"
    unfolding assms using that
    by (rule channels_run_other) (simp add: OutputChannelManager_new_def)
  have lost: "N \<in> lockedChannels s \<and> N \<notin> set (the (storage (onStop s)))"
    if h: "stored = Some names \<and> N \<in> set names \<and> xs = OnStart # ys \<and> GetChannel N \<notin> set ys"
  proof -
    from h have "GetChannel N \<notin> set xs" by auto
    then have none: "map_of (channels s) N = None" by (rule never)
    have "N \<in> lockedChannels (onStart (OutputChannelManager_new prefs stored))"
      using h by (simp add: onStart_def OutputChannelManager_new_def)
    then have "N \<in> lockedChannels (run ys (onStart (OutputChannelManager_new prefs stored)))"
      by (rule run_lockedChannels)
    then have "N \<in> lockedChannels s" unfolding assms using h by (simp add: step_def)
    with absent [OF none] show ?thesis by simp
  qed
  from stop mem absent next_session never lost show ?thesis by blast
qed

lemma locked_session:
  "run [OnStart, GetChannel ''one'', GetChannel ''two'', ChannelToggleLocked 1]
     (OutputChannelManager_new \<lparr>maxChannelHistory = Finite 1000\<rparr> (Some [''three'']))
   = \<lparr>channels = [(''one'', 0), (''two'', 1)], selectedChannelValue = Some 0,
      toDisposeOnChannelDeletion = [(''one'', [0]), (''two'', [1])],
      lockedChannels = {''three''}, preferences = \<lparr>maxChannelHistory = Finite 1000\<rparr>,
      storage = Some [''three''],
      heap = [OutputChannel_new ''one'', (OutputChannel_new ''two'')\<lparr>locked := True\<rparr>],
      fired = [ChannelAdded 0, ListOrSelectionChange, SelectedChannelChange,
               ListOrSelectionChange, ChannelAdded 1, ListOrSelectionChange, LockChange 1],
      console = []\<rparr>"
  by (simp add: manager_defs Let_def)

theorem C10_onStop_persists_registry_witness:
  "storage (onStop (run [OnStart, GetChannel ''one'', GetChannel ''two'', ChannelToggleLocked 1]
      (OutputChannelManager_new \<lparr>maxChannelHistory = Finite 1000\<rparr> (Some [''three'']))))
     = Some [''two'']
   \<and> GetChannel ''three'' \<notin> set [GetChannel ''one'', GetChannel ''two'', ChannelToggleLocked 1]
   \<and> ''three'' \<in> lockedChannels
       (run [OnStart, GetChannel ''one'', GetChannel ''two'', ChannelToggleLocked 1]
         (OutputChannelManager_new \<lparr>maxChannelHistory = Finite 1000\<rparr> (Some [''three''])))
   \<and> ''three'' \<notin> set (the (storage (onStop
       (run [OnStart, GetChannel ''one'', GetChannel ''two'', ChannelToggleLocked 1]
         (OutputChannelManager_new \<lparr>maxChannelHistory = Finite 1000\<rparr> (Some [''three'']))))))"
proof -
  let ?xs = "[OnStart, GetChannel ''one'', GetChannel ''two'', ChannelToggleLocked 1]"
  let ?init = "OutputChannelManager_new \<lparr>maxChannelHistory = Finite 1000\<rparr> (Some [''three''])"
  note T = C10_onStop_persists_registry [OF refl, of ?xs "\<lparr>maxChannelHistory = Finite 1000\<rparr>"
      "Some [''three'']" "''three''" "\<lparr>maxChannelHistory = Finite 1000\<rparr>" "[''three'']"
      "[GetChannel ''one'', GetChannel ''two'', ChannelToggleLocked 1]"]
  have ys: "GetChannel ''three'' \<notin> set [GetChannel ''one'', GetChannel ''two'', ChannelToggleLocked 1]"
    by simp
  from T have "onStop (run ?xs ?init) = (run ?xs ?init)\<lparr>storage :=
      Some (map fst (filter (\<lambda>(n, r). locked (heap (run ?xs ?init) ! r))
        (channels (run ?xs ?init))))\<rparr>"
    by blast
  then have st: "storage (onStop (run ?xs ?init)) = Some [''two'']"
    unfolding locked_session by (simp add: OutputChannel_new_def)
  have h: "Some [''three''] = Some [''three''] \<and> ''three'' \<in> set [''three'']
      \<and> ?xs = OnStart # [GetChannel ''one'', GetChannel ''two'', ChannelToggleLocked 1]
      \<and> GetChannel ''three'' \<notin> set [GetChannel ''one'', GetChannel ''two'', ChannelToggleLocked 1]"
    by simp
  from T h have lost: "''three'' \<in> lockedChannels (run ?xs ?init)
      \<and> ''three'' \<notin> set (the (storage (onStop (run ?xs ?init))))"
    by blast
  from st ys lost show ?thesis by blast
qed

end
